theory Spec2Isabelle
  imports Main "HOL-Library.Sublist" "HOL-Library.Char_ord" "HOL-Library.List_Lexorder"
begin

section \<open>The collection reconciler: \<open>createQmdCollections\<close> of install.ts\<close>

text \<open>
  The reconciler talks to the search engine only through \<open>execSync\<close>, which runs one
  \<open>qmd\<close> command line, returns its standard output and throws when the command exits with
  a nonzero status. The engine is not part of the repository, so it is a parameter of the
  model: a function from a command and the engine's state to the command's result
  (\<open>None\<close> when it fails) and the next state. The four command lines the function
  builds are the constructors of \<open>cmd\<close>; their arguments are the strings the template
  literals interpolate (the names are taken to be free of the shell's quoting characters,
  so that the shell hands them to \<open>qmd\<close> as they are).
\<close>

datatype cmd =
    CollectionList
  | CollectionRemove string
  | CollectionAdd string string
  | ContextAdd string string

datatype exn = ExecError

type_synonym 's qmd = "cmd \<Rightarrow> 's \<Rightarrow> string option \<times> 's"

text \<open>
  The world the function runs in: the engine's state, and the log of the commands issued so
  far, each with whether it succeeded. The log is what the claims about issued operations
  are stated on.
\<close>

record 's world =
  engine :: 's
  calls :: "(cmd \<times> bool) list"

definition execSync :: "'s qmd \<Rightarrow> cmd \<Rightarrow> 's world \<Rightarrow> (exn + string) \<times> 's world" where
  "execSync qmd c w =
     (case qmd c (engine w) of
        (None, s') \<Rightarrow> (Inl ExecError, \<lparr>engine = s', calls = calls w @ [(c, False)]\<rparr>)
      | (Some out, s') \<Rightarrow> (Inr out, \<lparr>engine = s', calls = calls w @ [(c, True)]\<rparr>))"

text \<open>
  An entry of the output root: a directory with the names of the files in it, or something
  that is not a directory. \<open>statSync(...).isDirectory()\<close> is all the function asks of an
  entry.
\<close>

datatype node = Dir "string list" | File

fun isDirectory :: "node \<Rightarrow> bool" where
  "isDirectory (Dir documents) = True"
| "isDirectory File = False"

text \<open>\<open>result.split('\n')\<close>: the pieces between newlines, a last empty piece included.\<close>

fun split_on :: "char \<Rightarrow> string \<Rightarrow> string list" where
  "split_on c [] = [[]]"
| "split_on c (x # xs) =
     (if x = c then [] # split_on c xs
      else (case split_on c xs of
              [] \<Rightarrow> [[x]]
            | l # ls \<Rightarrow> (x # l) # ls))"

text \<open>
  The regular expression \<open>/^(claude-\S+-conversations)\s+\(/\<close>. After the literal
  \<open>claude-\<close> the greedy \<open>\S+\<close> runs to the next white space; the expression then asks
  for white space after \<open>-conversations\<close>, so backtracking can only succeed with
  \<open>-conversations\<close> at the very end of that run, with at least one character before it.
  White space is the ASCII part of what \<open>\s\<close> matches.
\<close>

definition is_space :: "char \<Rightarrow> bool" where
  "is_space c = (c \<in> set [CHR '' '', CHR 0x09, CHR 0x0A, CHR 0x0B, CHR 0x0C, CHR 0x0D])"

definition strip_prefix :: "string \<Rightarrow> string \<Rightarrow> string option" where
  "strip_prefix p s = (if take (length p) s = p then Some (drop (length p) s) else None)"

definition match_collection :: "string \<Rightarrow> string option" where
  "match_collection line =
     (case strip_prefix ''claude-'' line of
        None \<Rightarrow> None
      | Some r \<Rightarrow>
          (let run = takeWhile (\<lambda>c. \<not> is_space c) r;
               rest = dropWhile (\<lambda>c. \<not> is_space c) r;
               after = dropWhile is_space rest
           in if suffix ''-conversations'' run \<and> length ''-conversations'' < length run
                 \<and> rest \<noteq> [] \<and> take 1 after = ''(''
              then Some (''claude-'' @ run)
              else None))"

text \<open>
  The query for the existing collections: the names parsed from the listing, or the empty
  list when the command throws (the \<open>catch {}\<close> after it).
\<close>

definition existingCollections :: "'s qmd \<Rightarrow> 's world \<Rightarrow> (exn + string list) \<times> 's world" where
  "existingCollections qmd w =
     (case execSync qmd CollectionList w of
        (Inl e, w') \<Rightarrow> (Inr [], w')
      | (Inr result, w') \<Rightarrow>
          (Inr (filter (\<lambda>name. name \<noteq> [])
                  (List.map_filter match_collection (split_on (CHR 0x0A) result))), w'))"

definition collectionName :: "string \<Rightarrow> string" where
  "collectionName project = ''claude-'' @ project @ ''-conversations''"

definition projectPath :: "string \<Rightarrow> string \<Rightarrow> string" where
  "projectPath convert_dir project = convert_dir @ ''/'' @ project"

definition contextUri :: "string \<Rightarrow> string" where
  "contextUri project = ''qmd://'' @ collectionName project @ ''/''"

definition contextNote :: "string \<Rightarrow> string" where
  "contextNote project = ''Claude conversation history for '' @ project @ '' project''"

record counters =
  created :: nat
  recreated :: nat

text \<open>
  The body of the \<open>try\<close> of one loop iteration: the optional remove, the add, the context
  registration and the increment of one counter. The first command that throws ends it.
\<close>

definition try_body ::
  "'s qmd \<Rightarrow> string \<Rightarrow> string \<Rightarrow> bool \<Rightarrow> counters \<Rightarrow> 's world \<Rightarrow> (exn + counters) \<times> 's world" where
  "try_body qmd convert_dir project exists n w =
     (case (if exists then execSync qmd (CollectionRemove (collectionName project)) w
            else (Inr [], w)) of
        (Inl e, w1) \<Rightarrow> (Inl e, w1)
      | (Inr _, w1) \<Rightarrow>
          (case execSync qmd (CollectionAdd (projectPath convert_dir project) (collectionName project)) w1 of
             (Inl e, w2) \<Rightarrow> (Inl e, w2)
           | (Inr _, w2) \<Rightarrow>
               (case execSync qmd (ContextAdd (contextUri project) (contextNote project)) w2 of
                  (Inl e, w3) \<Rightarrow> (Inl e, w3)
                | (Inr _, w3) \<Rightarrow>
                    (Inr (if exists then n\<lparr>recreated := recreated n + 1\<rparr>
                          else n\<lparr>created := created n + 1\<rparr>), w3))))"

text \<open>One iteration of the loop over the projects: the \<open>try\<close> with its empty \<open>catch\<close>.\<close>

definition reconcile_project ::
  "'s qmd \<Rightarrow> string \<Rightarrow> string list \<Rightarrow> string \<Rightarrow> counters \<Rightarrow> 's world \<Rightarrow> (exn + counters) \<times> 's world" where
  "reconcile_project qmd convert_dir existing project n w =
     (case try_body qmd convert_dir project (collectionName project \<in> set existing) n w of
        (Inl e, w') \<Rightarrow> (Inr n, w')
      | (Inr n', w') \<Rightarrow> (Inr n', w'))"

text \<open>The \<open>for\<close> loop; an exception that escaped an iteration would end it.\<close>

fun for_projects ::
  "'s qmd \<Rightarrow> string \<Rightarrow> string list \<Rightarrow> string list \<Rightarrow> counters \<Rightarrow> 's world \<Rightarrow> (exn + counters) \<times> 's world" where
  "for_projects qmd convert_dir existing [] n w = (Inr n, w)"
| "for_projects qmd convert_dir existing (project # projects) n w =
     (case reconcile_project qmd convert_dir existing project n w of
        (Inl e, w') \<Rightarrow> (Inl e, w')
      | (Inr n', w') \<Rightarrow> for_projects qmd convert_dir existing projects n' w')"

text \<open>
  The function. Its first argument after the engine is the output root's path
  (\<open>CONVERT_DIR\<close>), the second the root as the file system has it: \<open>None\<close> when it does
  not exist, else its entries in the order \<open>readdirSync\<close> returns them.
\<close>

definition projects_of :: "(string \<times> node) list \<Rightarrow> string list" where
  "projects_of entries = map fst (filter (\<lambda>(f, n). isDirectory n) entries)"

definition createQmdCollections ::
  "'s qmd \<Rightarrow> string \<Rightarrow> (string \<times> node) list option \<Rightarrow> 's \<Rightarrow> (exn + counters) \<times> 's world" where
  "createQmdCollections qmd convert_dir root s =
     (let w = \<lparr>engine = s, calls = []\<rparr>; n = \<lparr>created = 0, recreated = 0\<rparr>
      in case root of
           None \<Rightarrow> (Inr n, w)
         | Some entries \<Rightarrow>
             (case existingCollections qmd w of
                (Inl e, w1) \<Rightarrow> (Inl e, w1)
              | (Inr existing, w1) \<Rightarrow>
                  for_projects qmd convert_dir existing (projects_of entries) n w1))"

subsection \<open>Vocabulary for the statements about the reconciler\<close>

text \<open>
  The three commands that concern one project, and the commands the loop body plans for it:
  the remove only when the derived name was found in the listing.
\<close>

definition remove_cmd :: "string \<Rightarrow> cmd" where
  "remove_cmd project = CollectionRemove (collectionName project)"

definition add_cmd :: "string \<Rightarrow> string \<Rightarrow> cmd" where
  "add_cmd convert_dir project = CollectionAdd (projectPath convert_dir project) (collectionName project)"

definition context_cmd :: "string \<Rightarrow> cmd" where
  "context_cmd project = ContextAdd (contextUri project) (contextNote project)"

definition plan :: "string \<Rightarrow> string list \<Rightarrow> string \<Rightarrow> cmd list" where
  "plan convert_dir existing project =
     (if collectionName project \<in> set existing then [remove_cmd project] else [])
     @ [add_cmd convert_dir project, context_cmd project]"

text \<open>
  The ways a planned sequence can run when the first failing command ends it: every
  command before the last one issued succeeded, and a sequence that stopped early stopped
  at a failure.
\<close>

fun attempts :: "cmd list \<Rightarrow> (cmd \<times> bool) list list" where
  "attempts [] = [[]]"
| "attempts (c # cs) = [(c, False)] # map ((#) (c, True)) (attempts cs)"

definition all_ok :: "(cmd \<times> bool) list \<Rightarrow> bool" where
  "all_ok seg = list_all snd seg"

text \<open>Whether a command names a given collection (the listing names none).\<close>

fun touches :: "cmd \<Rightarrow> string \<Rightarrow> bool" where
  "touches CollectionList m = False"
| "touches (CollectionRemove name) m = (name = m)"
| "touches (CollectionAdd path name) m = (name = m)"
| "touches (ContextAdd uri note) m = (uri = ''qmd://'' @ m @ ''/'')"

text \<open>A directory entry with its content forgotten.\<close>

fun emptied :: "node \<Rightarrow> node" where
  "emptied (Dir documents) = Dir []"
| "emptied File = File"

text \<open>The names the listing query yields, as \<open>existingCollections\<close> computes them.\<close>

definition queried :: "'s qmd \<Rightarrow> 's \<Rightarrow> string list" where
  "queried qmd s =
     (case fst (qmd CollectionList s) of
        None \<Rightarrow> []
      | Some result \<Rightarrow>
          filter (\<lambda>name. name \<noteq> []) (List.map_filter match_collection (split_on (CHR 0x0A) result)))"

subsection \<open>A reference engine\<close>

text \<open>
  What the reconciler assumes of the engine, following the interface the specification
  gives (a collection is absent or present; add makes it present, remove absent): a set of
  collection names, and a listing of one line per collection in the format the regular
  expression above expects. Any command can fail; which ones do is given by a predicate on
  the number of the command in the run. A failed command changes nothing.
\<close>

record qmd_db =
  colls :: "string list"
  tick :: nat

definition listing :: "string list \<Rightarrow> string" where
  "listing names = concat (map (\<lambda>n. n @ '' (qmd://'' @ n @ ''/)'' @ [CHR 0x0A]) names)"

definition qmd_ref :: "(nat \<Rightarrow> bool) \<Rightarrow> qmd_db qmd" where
  "qmd_ref fails c db =
     (let db' = db\<lparr>tick := Suc (tick db)\<rparr>
      in if fails (tick db) then (None, db')
         else (case c of
                 CollectionList \<Rightarrow> (Some (listing (colls db)), db')
               | CollectionRemove name \<Rightarrow> (Some [], db'\<lparr>colls := removeAll name (colls db)\<rparr>)
               | CollectionAdd path name \<Rightarrow> (Some [], db'\<lparr>colls := List.insert name (colls db)\<rparr>)
               | ContextAdd uri note \<Rightarrow> (Some [], db')))"

text \<open>
  The same assumptions as a predicate on an arbitrary engine, \<open>present s name\<close> saying
  that the collection is registered in state \<open>s\<close>: a successful remove unregisters its
  collection, a successful add registers it, and nothing else changes.
\<close>

definition keeps_collections :: "'s qmd \<Rightarrow> ('s \<Rightarrow> string \<Rightarrow> bool) \<Rightarrow> bool" where
  "keeps_collections qmd present =
     (\<forall>c s name.
        present (snd (qmd c s)) name =
          (case (c, fst (qmd c s)) of
             (CollectionRemove n, Some out) \<Rightarrow> name \<noteq> n \<and> present s name
           | (CollectionAdd path n, Some out) \<Rightarrow> name = n \<or> present s name
           | _ \<Rightarrow> present s name))"

subsection \<open>The loop replayed on the engine alone\<close>

text \<open>
  For the proofs the run is described a second time, without the counters and the log: the
  calls that running a planned sequence on the engine produces, project after project. The
  lemmas below show that \<open>createQmdCollections\<close> issues exactly these calls, so that what
  is proved about them holds of the function.
\<close>

fun run_plan :: "'s qmd \<Rightarrow> cmd list \<Rightarrow> 's \<Rightarrow> (cmd \<times> bool) list \<times> 's" where
  "run_plan qmd [] s = ([], s)"
| "run_plan qmd (c # cs) s =
     (case qmd c s of
        (None, s') \<Rightarrow> ([(c, False)], s')
      | (Some out, s') \<Rightarrow> (case run_plan qmd cs s' of (seg, s'') \<Rightarrow> ((c, True) # seg, s'')))"

fun run_all :: "'s qmd \<Rightarrow> string \<Rightarrow> string list \<Rightarrow> string list \<Rightarrow> 's \<Rightarrow> (cmd \<times> bool) list list \<times> 's" where
  "run_all qmd cd ex [] s = ([], s)"
| "run_all qmd cd ex (p # ps) s =
     (case run_plan qmd (plan cd ex p) s of (seg, s') \<Rightarrow>
        (case run_all qmd cd ex ps s' of (segs, s'') \<Rightarrow> (seg # segs, s'')))"

text \<open>The counter one project's calls increment, and the counters after all of them.\<close>

definition count_project :: "string list \<Rightarrow> string \<Rightarrow> (cmd \<times> bool) list \<Rightarrow> counters \<Rightarrow> counters" where
  "count_project existing p seg n =
     (if all_ok seg then
        (if collectionName p \<in> set existing then n\<lparr>recreated := recreated n + 1\<rparr>
         else n\<lparr>created := created n + 1\<rparr>)
      else n)"

fun tally :: "string list \<Rightarrow> (string \<times> (cmd \<times> bool) list) list \<Rightarrow> counters \<Rightarrow> counters" where
  "tally ex [] n = n"
| "tally ex ((p, seg) # rest) n = tally ex rest (count_project ex p seg n)"

text \<open>A sequence of commands run through \<open>execSync\<close>, up to the first that throws.\<close>

fun exec_all :: "'s qmd \<Rightarrow> cmd list \<Rightarrow> 's world \<Rightarrow> (exn + unit) \<times> 's world" where
  "exec_all qmd [] w = (Inr (), w)"
| "exec_all qmd (c # cs) w =
     (case execSync qmd c w of
        (Inl e, w') \<Rightarrow> (Inl e, w')
      | (Inr out, w') \<Rightarrow> exec_all qmd cs w')"

text \<open>
  Each project's calls are one of the runs of its plan.
\<close>

definition planned :: "string \<Rightarrow> string list \<Rightarrow> string list \<Rightarrow> (cmd \<times> bool) list list \<Rightarrow> bool" where
  "planned cd ex ps segs = list_all2 (\<lambda>p seg. seg \<in> set (attempts (plan cd ex p))) ps segs"

text \<open>
  What a log of calls does to one collection of an engine that keeps its collections as the
  reference engine does: the last successful remove or add of that name decides.
\<close>

fun after_call :: "string \<Rightarrow> bool \<Rightarrow> cmd \<times> bool \<Rightarrow> bool" where
  "after_call m b (CollectionRemove name, True) = (if name = m then False else b)"
| "after_call m b (CollectionAdd path name, True) = (if name = m then True else b)"
| "after_call m b (c, ok) = b"

definition after_calls :: "string \<Rightarrow> bool \<Rightarrow> (cmd \<times> bool) list \<Rightarrow> bool" where
  "after_calls m b evs = foldl (after_call m) b evs"

subsection \<open>Concrete runs\<close>

text \<open>
  Failure patterns for the reference engine, an output root with three project
  directories (one of them empty) and a file, and an engine that knows two collections, one
  of them without a project directory.
\<close>

definition never :: "nat \<Rightarrow> bool" where
  "never k = False"

definition only_at :: "nat \<Rightarrow> nat \<Rightarrow> bool" where
  "only_at i k = (k = i)"

definition demo_root :: "(string \<times> node) list" where
  "demo_root = [(''foo'', Dir [''2024-03-01-abcdef12.md'']), (''notes.txt'', File),
                (''bar'', Dir [''2024-03-02-0a1b2c3d.md'']), (''baz'', Dir [])]"

definition demo_db :: qmd_db where
  "demo_db = \<lparr>colls = [''claude-foo-conversations'', ''claude-old-conversations''], tick = 0\<rparr>"

section \<open>The converter: \<open>CONVERTER_SCRIPT\<close> of install.ts\<close>

text \<open>
  The converter is the bash script that install.ts keeps in a template literal and writes
  to \<open>convert-claude-history.sh\<close>. The model follows the script command by command.
  The script reads its arguments, \<open>HOME\<close>, the date, and the tree under
  \<open>~/.claude/projects\<close>; it changes directories and files under \<open>CONVERT_DIR\<close> and
  prints to its standard output.

  The script runs under \<open>set -e\<close>: it ends when a simple command returns a nonzero
  status, unless the command stands in a \<open>&&\<close> or \<open>||\<close> list before the last
  command of the list or in a pipeline before its last command. An assignment
  \<open>x=$(...)\<close> is a simple command with the status of the substitution. The status of
  a \<open>for\<close> loop is never tested, and no \<open>[[ ]]\<close> of the script stands last in its
  list.

  Two commands of the script are treated differently by different versions of bash. The
  arithmetic command \<open>((n++))\<close> has a nonzero status when the value of the expression,
  the counter before the increment, is 0; bash 4.1 and later apply \<open>set -e\<close> to it,
  bash 3.2 does not. A group command \<open>{ ... } > file\<close> whose redirection fails has a
  nonzero status; bash 5.2 ends the script there, bash 3.2 goes on. The script can meet
  either: its first line names \<open>/bin/bash\<close>, which is bash 3.2 on the platform the
  installer targets (it registers a LaunchAgent, whose job starts the script by its name),
  and the installer itself starts it with \<open>bash "${scriptPath}"\<close>, the \<open>bash\<close> found on
  the \<open>PATH\<close>. So the interpreter is part of the environment the model takes
  (\<open>errexit_arith\<close>, \<open>errexit_redirect\<close>).
\<close>

subsection \<open>Session logs\<close>

text \<open>
  A session log is a file of lines, each meant to hold one JSON object. The model keeps of
  an object the fields the script reads, each with the type the log format gives it; a
  field that is absent or \<open>null\<close> is \<open>None\<close>. A line can also be blank, or text that
  \<open>jq\<close> cannot parse. Strings are lists of characters; \<open>jq\<close>'s slice \<open>[0:10]\<close> and
  bash's \<open>${x:0:8}\<close> count characters.
\<close>

record fragment =
  j_fragment_type :: string
  j_text :: "string option"

datatype content = Text string | Fragments "fragment list"

record entry =
  j_type :: "string option"
  j_content :: "content option"
  j_cwd :: "string option"
  j_sessionId :: "string option"
  j_slug :: "string option"
  j_timestamp :: "string option"

datatype line = Blank | Malformed | Record entry

text \<open>
  The tree the script walks: a regular file with its lines, or a directory with its entries
  in the order the directory lists them (the order of \<open>find\<close>). File names hold no
  newline.
\<close>

datatype tree = Log "line list" | Folder "(string \<times> tree) list"

subsection \<open>The tools the script calls\<close>

text \<open>\<open>$(...)\<close> drops the newlines at the end of what the command printed.\<close>

definition cmdsubst :: "string \<Rightarrow> string" where
  "cmdsubst printed = rev (dropWhile (\<lambda>c. c = CHR 0x0A) (rev printed))"

text \<open>\<open>head -1\<close> of a text: its first line, without the newline.\<close>

definition head1 :: "string \<Rightarrow> string" where
  "head1 printed = takeWhile (\<lambda>c. c \<noteq> CHR 0x0A) printed"

text \<open>
  What a \<open>jq\<close> filter does with one input object: it prints one string, prints nothing,
  or raises an error. \<open>jq -r\<close> prints a string as it is, followed by a newline.
\<close>

datatype jq_result = Prints string | Nothing | Raises

text \<open>
  \<open>jq\<close> over a sequence of inputs. Blank input is skipped. Text that does not parse ends
  the run with a nonzero status, after what was printed for the inputs before it. An error
  raised by the filter on one input is reported and the next input is read; whether the
  exit status then stays nonzero when later inputs succeed differs between versions of
  \<open>jq\<close>, so it is a parameter (\<open>sticky\<close>). The result is the text printed and whether
  the exit status is zero.
\<close>

fun jq :: "bool \<Rightarrow> (entry \<Rightarrow> jq_result) \<Rightarrow> line list \<Rightarrow> bool \<Rightarrow> string \<times> bool" where
  "jq sticky f [] ok = ([], ok)"
| "jq sticky f (Blank # ls) ok = jq sticky f ls ok"
| "jq sticky f (Malformed # ls) ok = ([], False)"
| "jq sticky f (Record e # ls) ok =
     (case f e of
        Prints s \<Rightarrow> (case jq sticky f ls (if sticky then ok else True) of
                       (printed, ok') \<Rightarrow> (s @ [CHR 0x0A] @ printed, ok'))
      | Nothing \<Rightarrow> jq sticky f ls (if sticky then ok else True)
      | Raises \<Rightarrow> jq sticky f ls False)"

text \<open>The four filters of the script.\<close>

definition cwd_filter :: "entry \<Rightarrow> jq_result" where
  \<comment> \<open>\<open>select(.cwd != null) | .cwd\<close>\<close>
  "cwd_filter e = (case j_cwd e of None \<Rightarrow> Nothing | Some s \<Rightarrow> Prints s)"

definition sessionId_filter :: "entry \<Rightarrow> jq_result" where
  \<comment> \<open>\<open>.sessionId // empty\<close>\<close>
  "sessionId_filter e = (case j_sessionId e of None \<Rightarrow> Nothing | Some s \<Rightarrow> Prints s)"

definition slug_filter :: "entry \<Rightarrow> jq_result" where
  \<comment> \<open>\<open>.slug // "unknown"\<close>\<close>
  "slug_filter e = (case j_slug e of None \<Rightarrow> Prints ''unknown'' | Some s \<Rightarrow> Prints s)"

definition timestamp_filter :: "entry \<Rightarrow> jq_result" where
  \<comment> \<open>\<open>.timestamp[0:10] // empty\<close>\<close>
  "timestamp_filter e = (case j_timestamp e of None \<Rightarrow> Nothing | Some s \<Rightarrow> Prints (take 10 s))"

text \<open>
  The filter of the body. A user record prints its heading and its content, which must be a
  string (\<open>jq\<close> cannot add an array to a string); an assistant record prints its heading
  and its content, of an array the \<open>text\<close> fields that are there, joined by newlines;
  every other record prints nothing.
\<close>

fun join :: "string \<Rightarrow> string list \<Rightarrow> string" where
  "join sep [] = []"
| "join sep [s] = s"
| "join sep (s # t # ss) = s @ sep @ join sep (t # ss)"

definition body_filter :: "entry \<Rightarrow> jq_result" where
  "body_filter e =
     (if j_type e = Some ''user'' then
        (case j_content e of
           None \<Rightarrow> Prints (''## User'' @ [CHR 0x0A, CHR 0x0A] @ [] @ [CHR 0x0A])
         | Some (Text s) \<Rightarrow> Prints (''## User'' @ [CHR 0x0A, CHR 0x0A] @ s @ [CHR 0x0A])
         | Some (Fragments fs) \<Rightarrow> Raises)
      else if j_type e = Some ''assistant'' then
        Prints (''## Assistant'' @ [CHR 0x0A, CHR 0x0A]
                @ (case j_content e of
                     None \<Rightarrow> join [CHR 0x0A] []
                   | Some (Text s) \<Rightarrow> s
                   | Some (Fragments fs) \<Rightarrow> join [CHR 0x0A] (List.map_filter j_text fs))
                @ [CHR 0x0A])
      else Nothing)"

text \<open>
  \<open>basename\<close> of a path: the part after the last slash, once the slashes at the end are
  dropped; a path of slashes only is \<open>/\<close>. (An originating path is an absolute path; the
  model does not cover a string that \<open>basename\<close> would read as an option.) With a suffix,
  the suffix is dropped from a longer name that ends with it.
\<close>

definition basename :: "string \<Rightarrow> string" where
  "basename path =
     (let trimmed = rev (dropWhile (\<lambda>c. c = CHR ''/'') (rev path))
      in if trimmed = [] then (if path = [] then [] else ''/'')
         else rev (takeWhile (\<lambda>c. c \<noteq> CHR ''/'') (rev trimmed)))"

definition basename_suffix :: "string \<Rightarrow> string \<Rightarrow> string" where
  "basename_suffix path sfx =
     (let name = basename path
      in if suffix sfx name \<and> name \<noteq> sfx then take (length name - length sfx) name else name)"

text \<open>The directory a path lies in: the path up to its last slash.\<close>

definition dirname :: "string \<Rightarrow> string" where
  "dirname path = rev (drop 1 (dropWhile (\<lambda>c. c \<noteq> CHR ''/'') (rev path)))"

text \<open>The pattern \<open>*"text"*\<close>: the text occurs in the string.\<close>

fun contains :: "string \<Rightarrow> string \<Rightarrow> bool" where
  "contains pat [] = (pat = [])"
| "contains pat (c # cs) = (prefix pat (c # cs) \<or> contains pat cs)"

text \<open>
  The glob \<open>dir/*\<close> or \<open>dir/*.jsonl\<close>: the names that match and do not begin with a
  dot, in sorted order (the order of the characters' codes, as in the C locale). When
  nothing matches, the loop runs once on the pattern itself, which names nothing, and goes
  on; that is a loop over no entries.
\<close>

definition glob :: "string \<Rightarrow> (string \<times> tree) list \<Rightarrow> (string \<times> tree) list" where
  "glob sfx entries =
     sort_key fst (filter (\<lambda>(name, t). suffix sfx name \<and> take 1 name \<noteq> ''.'') entries)"

text \<open>
  \<open>find dir -maxdepth 1 -name "*.jsonl" -type f\<close>: the regular files of the directory
  whose names end in \<open>.jsonl\<close>, hidden ones included, in the directory's order.
\<close>

fun is_file :: "tree \<Rightarrow> bool" where
  "is_file (Log ls) = True"
| "is_file (Folder entries) = False"

fun lines_of :: "tree \<Rightarrow> line list" where
  "lines_of (Log ls) = ls"
| "lines_of (Folder entries) = []"

definition find_jsonl :: "(string \<times> tree) list \<Rightarrow> (string \<times> tree) list" where
  "find_jsonl entries = filter (\<lambda>(name, t). suffix ''.jsonl'' name \<and> is_file t) entries"

subsection \<open>The state the script changes\<close>

text \<open>
  The directories and the files of the output tree, by path, the lines printed, and the two
  counters. A line of output is kept by its kind and the values it shows.
\<close>

datatype out_line =
    Usage
  | Warning_no_cwd string
  | Skipping_worktree string
  | Processing string nat
  | Would_convert string string
  | Converted nat string
  | Summary nat nat string

record sh =
  dirs :: "string list"
  files :: "(string \<times> string) list"
  stdout :: "out_line list"
  project_count :: nat
  converted_count :: nat

datatype flow = Go | Halt

definition echo :: "out_line \<Rightarrow> sh \<Rightarrow> sh" where
  "echo l st = st\<lparr>stdout := stdout st @ [l]\<rparr>"

text \<open>
  \<open>mkdir -p\<close>: the directory is there afterwards. It fails, and \<open>set -e\<close> ends the
  script, when the path is a file. Paths are compared as strings.
\<close>

definition can_mkdir :: "string \<Rightarrow> sh \<Rightarrow> bool" where
  "can_mkdir path st = (path \<notin> fst ` set (files st))"

definition mkdir_p :: "string \<Rightarrow> sh \<Rightarrow> sh" where
  "mkdir_p path st = st\<lparr>dirs := List.insert path (dirs st)\<rparr>"

text \<open>
  \<open>{ ... } > file\<close>: the file gets the content, in place when it is there already. The
  redirection fails when the file's directory does not exist or the path is a directory;
  the group command is then not run, and the script ends or goes on with the next command,
  as the interpreter has it.
\<close>

fun write_file :: "string \<Rightarrow> string \<Rightarrow> (string \<times> string) list \<Rightarrow> (string \<times> string) list" where
  "write_file path text [] = [(path, text)]"
| "write_file path text ((p, t) # fs) =
     (if p = path then (path, text) # fs else (p, t) # write_file path text fs)"

definition can_write :: "string \<Rightarrow> sh \<Rightarrow> bool" where
  "can_write path st = (dirname path \<in> set (dirs st) \<and> path \<notin> set (dirs st))"

text \<open>
  What the script finds around it: \<open>HOME\<close>, the date, the behaviour of \<open>jq\<close> after
  an error of the filter, and the two behaviours of the interpreter under \<open>set -e\<close>.
\<close>

record env =
  home :: string
  today :: string
  jq_sticky :: bool
  errexit_arith :: bool
  errexit_redirect :: bool

text \<open>
  \<open>((n++))\<close> for a counter that held \<open>n\<close>: the counter is incremented by the caller;
  this is what happens to the script afterwards.
\<close>

definition post_increment :: "env \<Rightarrow> nat \<Rightarrow> flow" where
  "post_increment env n = (if errexit_arith env \<and> n = 0 then Halt else Go)"

definition CONVERT_DIR :: "env \<Rightarrow> string" where
  "CONVERT_DIR env = home env @ ''/.claude/converted-history''"

definition projects_dir :: "env \<Rightarrow> string" where
  "projects_dir env = home env @ ''/.claude/projects''"

subsection \<open>One session\<close>

text \<open>
  \<open>head -1 file\<close> handed to \<open>jq\<close> through \<open>echo\<close>: the first line, no input for an
  empty file. The value of \<open>$(echo "$first_line" | jq -r filter)\<close> is \<open>None\<close> when
  \<open>jq\<close> fails: the assignment then has a nonzero status and \<open>set -e\<close> ends the script.
\<close>

definition first_line :: "line list \<Rightarrow> line list" where
  "first_line ls = take 1 ls"

definition jq_first :: "env \<Rightarrow> (entry \<Rightarrow> jq_result) \<Rightarrow> line list \<Rightarrow> string option" where
  "jq_first env f ls =
     (case jq (jq_sticky env) f (first_line ls) True of
        (printed, True) \<Rightarrow> Some (cmdsubst printed)
      | (printed, False) \<Rightarrow> None)"

text \<open>
  The values the script takes from the first line, and the name it gives the document:
  the date, a dash, the first eight characters of the session id or, when that is empty,
  of the log's name without \<open>.jsonl\<close>.
\<close>

record header =
  session_id :: string
  session_slug :: string
  session_date :: string
  short_id :: string

definition read_header :: "env \<Rightarrow> string \<Rightarrow> line list \<Rightarrow> header option" where
  "read_header env jsonl ls =
     (case jq_first env sessionId_filter ls of
        None \<Rightarrow> None
      | Some sid \<Rightarrow>
     (case jq_first env slug_filter ls of
        None \<Rightarrow> None
      | Some sl \<Rightarrow>
     (case jq_first env timestamp_filter ls of
        None \<Rightarrow> None
      | Some d \<Rightarrow>
          Some \<lparr>session_id = sid,
                session_slug = sl,
                session_date = (if d = [] then today env else d),
                short_id = (if take 8 sid = [] then cmdsubst (take 8 (basename_suffix jsonl ''.jsonl''))
                            else take 8 sid)\<rparr>)))"

definition md_name :: "header \<Rightarrow> string" where
  "md_name h = session_date h @ ''-'' @ short_id h @ ''.md''"

text \<open>The document: the header block, the body, and the marker when \<open>jq\<close> failed.\<close>

definition document_header :: "string \<Rightarrow> header \<Rightarrow> string" where
  "document_header cwd h =
     ''# Claude Session: '' @ session_slug h @ [CHR 0x0A]
     @ [CHR 0x0A]
     @ ''- **Date**: '' @ session_date h @ [CHR 0x0A]
     @ ''- **Session ID**: '' @ session_id h @ [CHR 0x0A]
     @ ''- **Project**: '' @ cwd @ [CHR 0x0A]
     @ [CHR 0x0A]
     @ ''---'' @ [CHR 0x0A]
     @ [CHR 0x0A]"

definition document_body :: "env \<Rightarrow> string \<Rightarrow> line list \<Rightarrow> string" where
  \<comment> \<open>\<open>jq -r '...' "$jsonl" 2>/dev/null || echo "Error parsing $jsonl"\<close>\<close>
  "document_body env jsonl ls =
     (case jq (jq_sticky env) body_filter ls True of
        (printed, True) \<Rightarrow> printed
      | (printed, False) \<Rightarrow> printed @ ''Error parsing '' @ jsonl @ [CHR 0x0A])"

definition document :: "env \<Rightarrow> string \<Rightarrow> string \<Rightarrow> header \<Rightarrow> line list \<Rightarrow> string" where
  "document env cwd jsonl h ls = document_header cwd h @ document_body env jsonl ls"

text \<open>
  The body of the inner loop for one match of the glob: \<open>project_dir\<close> is the group's
  directory, \<open>project_convert_dir\<close> the project's output directory.
\<close>

definition convert_session ::
  "env \<Rightarrow> bool \<Rightarrow> string \<Rightarrow> string \<Rightarrow> string \<Rightarrow> string \<times> tree \<Rightarrow> sh \<Rightarrow> flow \<times> sh" where
  "convert_session env dry_run cwd project_dir project_convert_dir match st =
     (case match of (name, t) \<Rightarrow>
        if \<not> is_file t then (Go, st)
        else
          (let jsonl = project_dir @ ''/'' @ name in
           case read_header env jsonl (lines_of t) of
             None \<Rightarrow> (Halt, st)
           | Some h \<Rightarrow>
               (let md_file = project_convert_dir @ ''/'' @ md_name h in
                if dry_run then (Go, echo (Would_convert (basename jsonl) (basename md_file)) st)
                else if \<not> can_write md_file st
                  then (if errexit_redirect env then (Halt, st)
                        else (post_increment env (converted_count st),
                              st\<lparr>converted_count := converted_count st + 1\<rparr>))
                else (post_increment env (converted_count st),
                      st\<lparr>files := write_file md_file (document env cwd jsonl h (lines_of t)) (files st),
                         converted_count := converted_count st + 1\<rparr>))))"

fun for_sessions ::
  "env \<Rightarrow> bool \<Rightarrow> string \<Rightarrow> string \<Rightarrow> string \<Rightarrow> (string \<times> tree) list \<Rightarrow> sh \<Rightarrow> flow \<times> sh" where
  "for_sessions env dry_run cwd project_dir project_convert_dir [] st = (Go, st)"
| "for_sessions env dry_run cwd project_dir project_convert_dir (m # ms) st =
     (case convert_session env dry_run cwd project_dir project_convert_dir m st of
        (Halt, st') \<Rightarrow> (Halt, st')
      | (Go, st') \<Rightarrow> for_sessions env dry_run cwd project_dir project_convert_dir ms st')"

subsection \<open>One log group\<close>

text \<open>
  The originating path: \<open>jq\<close> over the first five lines of the first log \<open>find\<close> lists,
  and of what it prints the first line. The pipeline ends in \<open>head\<close>, so a failure of
  \<open>jq\<close> does not end the script.
\<close>

definition extract_cwd :: "env \<Rightarrow> line list \<Rightarrow> string" where
  "extract_cwd env ls = cmdsubst (head1 (fst (jq (jq_sticky env) cwd_filter (take 5 ls) True)))"

definition is_worktree :: "string \<Rightarrow> bool" where
  \<comment> \<open>\<open>[[ A ]] || [[ B ]] && { ... }\<close>: the two operators associate to the left\<close>
  "is_worktree cwd = (contains ''.ralphy-worktrees'' cwd \<or> contains ''/agent-'' cwd)"

text \<open>The body of the outer loop for one match of \<open>~/.claude/projects/*\<close>.\<close>

definition process_group :: "env \<Rightarrow> bool \<Rightarrow> string \<times> tree \<Rightarrow> sh \<Rightarrow> flow \<times> sh" where
  "process_group env dry_run match st =
     (case match of
        (name, Log ls) \<Rightarrow> (Go, st)
      | (name, Folder entries) \<Rightarrow>
          (let project_dir = projects_dir env @ ''/'' @ name;
               jsonl_count = length (find_jsonl entries)
           in case find_jsonl entries of
                [] \<Rightarrow> (Go, st)
              | (first_name, first_log) # others \<Rightarrow>
                  (let st1 = st\<lparr>project_count := project_count st + 1\<rparr>;
                       first_jsonl = project_dir @ ''/'' @ first_name;
                       cwd = extract_cwd env (lines_of first_log)
                   in if post_increment env (project_count st) = Halt then (Halt, st1)
                      else if cwd = [] then (Go, echo (Warning_no_cwd first_jsonl) st1)
                      else if is_worktree cwd then (Go, echo (Skipping_worktree cwd) st1)
                      else
                        (let project_name = basename cwd;
                             project_convert_dir = CONVERT_DIR env @ ''/'' @ project_name
                         in if \<not> can_mkdir project_convert_dir st1 then (Halt, st1)
                            else
                              (let st2 = echo (Processing project_name jsonl_count)
                                           (mkdir_p project_convert_dir st1)
                               in case for_sessions env dry_run cwd project_dir project_convert_dir
                                         (glob ''.jsonl'' entries) st2 of
                                    (Halt, st3) \<Rightarrow> (Halt, st3)
                                  | (Go, st3) \<Rightarrow>
                                      (Go, echo (Converted jsonl_count project_convert_dir) st3))))))"

fun for_groups :: "env \<Rightarrow> bool \<Rightarrow> (string \<times> tree) list \<Rightarrow> sh \<Rightarrow> flow \<times> sh" where
  "for_groups env dry_run [] st = (Go, st)"
| "for_groups env dry_run (m # ms) st =
     (case process_group env dry_run m st of
        (Halt, st') \<Rightarrow> (Halt, st')
      | (Go, st') \<Rightarrow> for_groups env dry_run ms st')"

subsection \<open>The script\<close>

text \<open>
  The arguments are read first: any argument other than \<open>--dry-run\<close> prints the usage
  line and exits. Then the output root is made, the groups are walked and the summary is
  printed. The file system the script starts on is given by the directories and files of
  the state it is run in; the output and the counters start empty.
\<close>

definition run_converter :: "env \<Rightarrow> string list \<Rightarrow> (string \<times> tree) list \<Rightarrow> sh \<Rightarrow> flow \<times> sh" where
  "run_converter env args root st =
     (let st0 = st\<lparr>stdout := [], project_count := 0, converted_count := 0\<rparr>
      in if \<exists>a \<in> set args. a \<noteq> ''--dry-run'' then (Halt, echo Usage st0)
         else if \<not> can_mkdir (CONVERT_DIR env) st0 then (Halt, st0)
         else
           (let dry_run = (args \<noteq> []);
                st1 = mkdir_p (CONVERT_DIR env) st0
            in case for_groups env dry_run (glob [] root) st1 of
                 (Halt, st2) \<Rightarrow> (Halt, st2)
               | (Go, st2) \<Rightarrow>
                   (Go, echo (Summary (project_count st2) (converted_count st2) (CONVERT_DIR env)) st2)))"

subsection \<open>From the converter to the reconciler\<close>

text \<open>
  What \<open>readdirSync(CONVERT_DIR)\<close> finds after the script: the directories made right
  under the output root, each with the names of the files written into it, and the files
  right under the root.
\<close>

definition output_root :: "env \<Rightarrow> sh \<Rightarrow> (string \<times> node) list" where
  "output_root env st =
     map (\<lambda>d. (basename d, Dir (map (\<lambda>(f, text). basename f)
                                  (filter (\<lambda>(f, text). dirname f = d) (files st)))))
         (filter (\<lambda>d. dirname d = CONVERT_DIR env) (dirs st))
     @ map (\<lambda>(f, text). (basename f, File))
         (filter (\<lambda>(f, text). dirname f = CONVERT_DIR env) (files st))"

subsection \<open>Concrete logs\<close>

text \<open>
  An environment with bash 3.2 as the interpreter and the same with bash 5.2, a session of
  two records in a project, and log groups: one of two sessions, one of three sessions
  whose second holds text that is not JSON, one recorded in a worktree of an agent, and one
  whose first records name no working directory.
\<close>

definition demo_env :: env where
  "demo_env = \<lparr>home = ''/Users/u'', today = ''2026-11-03'', jq_sticky = True,
                errexit_arith = False, errexit_redirect = False\<rparr>"

definition demo_env5 :: env where
  "demo_env5 = demo_env\<lparr>errexit_arith := True, errexit_redirect := True\<rparr>"

definition no_fields :: entry where
  "no_fields = \<lparr>j_type = None, j_content = None, j_cwd = None, j_sessionId = None,
                 j_slug = None, j_timestamp = None\<rparr>"

definition user_event :: "string \<Rightarrow> string \<Rightarrow> string \<Rightarrow> entry" where
  "user_event dir sid said =
     \<lparr>j_type = Some ''user'', j_content = Some (Text said), j_cwd = Some dir,
      j_sessionId = Some sid, j_slug = None, j_timestamp = Some ''2024-03-01T09:30:00.000Z''\<rparr>"

definition assistant_event :: "string \<Rightarrow> string \<Rightarrow> string \<Rightarrow> entry" where
  "assistant_event dir sid said =
     \<lparr>j_type = Some ''assistant'',
      j_content = Some (Fragments [\<lparr>j_fragment_type = ''text'', j_text = Some said\<rparr>,
                                   \<lparr>j_fragment_type = ''tool_use'', j_text = None\<rparr>]),
      j_cwd = Some dir, j_sessionId = Some sid, j_slug = None,
      j_timestamp = Some ''2024-03-01T09:30:05.000Z''\<rparr>"

definition session :: "string \<Rightarrow> string \<Rightarrow> tree" where
  "session dir sid = Log [Record (user_event dir sid ''hello''), Record (assistant_event dir sid ''hi there'')]"

definition empty_sh :: sh where
  "empty_sh = \<lparr>dirs = [], files = [], stdout = [], project_count = 0, converted_count = 0\<rparr>"

definition demo_group :: "string \<times> tree" where
  "demo_group =
     (''-Users-u-git-demo'',
      Folder [(''a.jsonl'', session ''/Users/u/git/demo'' ''aaaaaaaa-1111''),
              (''c.jsonl'', session ''/Users/u/git/demo'' ''cccccccc-3333'')])"

definition broken_group :: "string \<times> tree" where
  "broken_group =
     (''-Users-u-git-demo'',
      Folder [(''a.jsonl'', session ''/Users/u/git/demo'' ''aaaaaaaa-1111''),
              (''b.jsonl'', Log [Malformed]),
              (''c.jsonl'', session ''/Users/u/git/demo'' ''cccccccc-3333'')])"

definition worktree_entries :: "(string \<times> tree) list" where
  "worktree_entries = [(''a.jsonl'', session ''/Users/u/git/demo/.ralphy-worktrees/agent-1'' ''aaaaaaaa-1111'')]"

definition no_cwd_entries :: "(string \<times> tree) list" where
  "no_cwd_entries =
     [(''a.jsonl'', Log [Record (no_fields\<lparr>j_type := Some ''summary''\<rparr>),
                         Record (no_fields\<lparr>j_type := Some ''user'', j_cwd := Some []\<rparr>)])]"

definition worktree_group :: "string \<times> tree" where
  "worktree_group = (''-Users-u-git-demo--ralphy-worktrees-agent-1'', Folder worktree_entries)"

definition no_cwd_group :: "string \<times> tree" where
  "no_cwd_group = (''-tmp-x'', Folder no_cwd_entries)"

section \<open>Properties of the reconciler\<close>

subsection \<open>The function issues the planned calls\<close>

lemma try_body_exec_all:
  "try_body qmd cd p (collectionName p \<in> set ex) n w =
     (case exec_all qmd (plan cd ex p) w of
        (Inl e, w') \<Rightarrow> (Inl e, w')
      | (Inr u, w') \<Rightarrow>
          (Inr (if collectionName p \<in> set ex then n\<lparr>recreated := recreated n + 1\<rparr>
                else n\<lparr>created := created n + 1\<rparr>), w'))"
  by (simp add: try_body_def plan_def remove_cmd_def add_cmd_def context_cmd_def
      split: prod.splits sum.splits)

lemma exec_all_run_plan:
  "exec_all qmd cs w =
     (case run_plan qmd cs (engine w) of
        (seg, s') \<Rightarrow>
          (if all_ok seg then Inr () else Inl ExecError,
           \<lparr>engine = s', calls = calls w @ seg\<rparr>))"
proof (induction cs arbitrary: w)
  case Nil
  show ?case by (simp add: all_ok_def)
next
  case (Cons c cs)
  obtain r s1 where q: "qmd c (engine w) = (r, s1)" by (cases "qmd c (engine w)")
  show ?case
  proof (cases r)
    case None
    with q show ?thesis by (simp add: execSync_def all_ok_def)
  next
    case (Some out)
    with q show ?thesis
      by (auto simp add: execSync_def Cons.IH all_ok_def split: prod.splits)
  qed
qed

lemma reconcile_project_run_plan:
  "reconcile_project qmd cd ex p n w =
     (case run_plan qmd (plan cd ex p) (engine w) of
        (seg, s') \<Rightarrow> (Inr (count_project ex p seg n), \<lparr>engine = s', calls = calls w @ seg\<rparr>))"
  by (simp add: reconcile_project_def try_body_exec_all exec_all_run_plan count_project_def
      split: prod.splits)

lemma for_projects_run_all:
  "for_projects qmd cd ex ps n w =
     (case run_all qmd cd ex ps (engine w) of
        (segs, s') \<Rightarrow> (Inr (tally ex (zip ps segs) n), \<lparr>engine = s', calls = calls w @ concat segs\<rparr>))"
proof (induction ps arbitrary: n w)
  case Nil
  show ?case by simp
next
  case (Cons p ps)
  show ?case
    by (simp add: reconcile_project_run_plan Cons.IH split: prod.splits)
qed

lemma run_plan_attempts: "fst (run_plan qmd cs s) \<in> set (attempts cs)"
proof (induction cs arbitrary: s)
  case Nil
  show ?case by simp
next
  case (Cons c cs)
  obtain r s1 where q: "qmd c s = (r, s1)" by (cases "qmd c s")
  show ?case
  proof (cases r)
    case None
    with q show ?thesis by simp
  next
    case (Some out)
    have "fst (run_plan qmd cs s1) \<in> set (attempts cs)" by (rule Cons.IH)
    with q Some show ?thesis by (auto split: prod.splits)
  qed
qed

lemma run_all_attempts:
  "list_all2 (\<lambda>p seg. seg \<in> set (attempts (plan cd ex p))) ps (fst (run_all qmd cd ex ps s))"
proof (induction ps arbitrary: s)
  case Nil
  show ?case by simp
next
  case (Cons p ps)
  obtain seg s1 where a: "run_plan qmd (plan cd ex p) s = (seg, s1)"
    by (cases "run_plan qmd (plan cd ex p) s")
  obtain segs s2 where b: "run_all qmd cd ex ps s1 = (segs, s2)"
    by (cases "run_all qmd cd ex ps s1")
  have "seg \<in> set (attempts (plan cd ex p))"
    using run_plan_attempts [of qmd "plan cd ex p" s] a by simp
  moreover have "list_all2 (\<lambda>p seg. seg \<in> set (attempts (plan cd ex p))) ps segs"
    using Cons.IH [of s1] b by simp
  ultimately show ?case using a b by simp
qed

lemma run_all_length: "length (fst (run_all qmd cd ex ps s)) = length ps"
  using run_all_attempts [of cd ex ps qmd s] by (simp add: list_all2_lengthD)

lemma tally_counts:
  "tally ex pss n =
     \<lparr>created = created n + length (filter (\<lambda>(p, seg). all_ok seg \<and> collectionName p \<notin> set ex) pss),
      recreated = recreated n + length (filter (\<lambda>(p, seg). all_ok seg \<and> collectionName p \<in> set ex) pss)\<rparr>"
proof (induction pss arbitrary: n)
  case Nil
  show ?case by simp
next
  case (Cons a pss)
  obtain p seg where a: "a = (p, seg)" by (cases a)
  show ?case unfolding a by (simp add: Cons.IH count_project_def)
qed

lemma existingCollections_eq:
  "existingCollections qmd w =
     (Inr (queried qmd (engine w)),
      \<lparr>engine = snd (qmd CollectionList (engine w)),
       calls = calls w @ [(CollectionList, fst (qmd CollectionList (engine w)) \<noteq> None)]\<rparr>)"
  by (cases "qmd CollectionList (engine w)"; cases "fst (qmd CollectionList (engine w))")
     (auto simp: existingCollections_def execSync_def queried_def)

lemma createQmdCollections_eq:
  "createQmdCollections qmd cd (Some entries) s =
     (case run_all qmd cd (queried qmd s) (projects_of entries) (snd (qmd CollectionList s)) of
        (segs, s') \<Rightarrow>
          (Inr (tally (queried qmd s) (zip (projects_of entries) segs) \<lparr>created = 0, recreated = 0\<rparr>),
           \<lparr>engine = s',
            calls = (CollectionList, fst (qmd CollectionList s) \<noteq> None) # concat segs\<rparr>))"
  by (simp add: createQmdCollections_def existingCollections_eq for_projects_run_all Let_def
      split: prod.splits)

lemma collectionName_inj [simp]: "collectionName p = collectionName q \<longleftrightarrow> p = q"
  by (simp add: collectionName_def)

lemma cmd_inj [simp]:
  "remove_cmd p = remove_cmd q \<longleftrightarrow> p = q"
  "add_cmd cd p = add_cmd cd q \<longleftrightarrow> p = q"
  "context_cmd p = context_cmd q \<longleftrightarrow> p = q"
  "remove_cmd p \<noteq> add_cmd cd q" "remove_cmd p \<noteq> context_cmd q" "add_cmd cd p \<noteq> context_cmd q"
  "add_cmd cd q \<noteq> remove_cmd p" "context_cmd q \<noteq> remove_cmd p" "context_cmd q \<noteq> add_cmd cd p"
  "remove_cmd p \<noteq> CollectionList" "add_cmd cd p \<noteq> CollectionList" "context_cmd p \<noteq> CollectionList"
  by (auto simp: remove_cmd_def add_cmd_def context_cmd_def contextUri_def)

lemma touches_cmds [simp]:
  "touches (remove_cmd p) m \<longleftrightarrow> m = collectionName p"
  "touches (add_cmd cd p) m \<longleftrightarrow> m = collectionName p"
  "touches (context_cmd p) m \<longleftrightarrow> m = collectionName p"
  by (auto simp: remove_cmd_def add_cmd_def context_cmd_def contextUri_def)

lemma attempts_plan:
  "seg \<in> set (attempts (plan cd ex p)) \<longleftrightarrow>
     (if collectionName p \<in> set ex
      then seg = [(remove_cmd p, False)]
         \<or> seg = [(remove_cmd p, True), (add_cmd cd p, False)]
         \<or> seg = [(remove_cmd p, True), (add_cmd cd p, True), (context_cmd p, False)]
         \<or> seg = [(remove_cmd p, True), (add_cmd cd p, True), (context_cmd p, True)]
      else seg = [(add_cmd cd p, False)]
         \<or> seg = [(add_cmd cd p, True), (context_cmd p, False)]
         \<or> seg = [(add_cmd cd p, True), (context_cmd p, True)])"
  by (auto simp: plan_def)

lemma attempt_cmds:
  assumes "seg \<in> set (attempts (plan cd ex p))" "e \<in> set seg"
  shows "fst e = remove_cmd p \<or> fst e = add_cmd cd p \<or> fst e = context_cmd p"
  using assms by (auto simp: attempts_plan split: if_splits)

lemma attempt_touches:
  assumes "seg \<in> set (attempts (plan cd ex p))" "e \<in> set seg"
  shows "touches (fst e) m \<longleftrightarrow> m = collectionName p"
  using attempt_cmds [OF assms] by auto

lemma attempt_counted:
  assumes "seg \<in> set (attempts (plan cd ex p))"
  shows "all_ok seg \<longleftrightarrow> (context_cmd p, True) \<in> set seg"
  using assms by (auto simp: attempts_plan all_ok_def split: if_splits)

lemma attempt_counted_add:
  assumes "seg \<in> set (attempts (plan cd ex p))" "(context_cmd p, True) \<in> set seg"
  shows "(add_cmd cd p, True) \<in> set seg"
  using assms by (auto simp: attempts_plan split: if_splits)

lemma attempt_nonempty:
  assumes "seg \<in> set (attempts (plan cd ex p))"
  shows "(\<exists>ok. (add_cmd cd p, ok) \<in> set seg) \<or> (remove_cmd p, False) \<in> set seg"
  using assms by (auto simp: attempts_plan split: if_splits)

lemma attempt_no_remove:
  assumes "seg \<in> set (attempts (plan cd ex p))" "collectionName p \<notin> set ex"
  shows "(CollectionRemove name, ok) \<notin> set seg"
  using assms by (auto simp: attempts_plan add_cmd_def context_cmd_def split: if_splits)

lemma planned_Nil [simp]: "planned cd ex [] segs \<longleftrightarrow> segs = []"
  by (auto simp: planned_def)

lemma planned_Cons:
  "planned cd ex (p # ps) segs \<longleftrightarrow>
     (\<exists>seg rest. segs = seg # rest \<and> seg \<in> set (attempts (plan cd ex p)) \<and> planned cd ex ps rest)"
  by (auto simp: planned_def list_all2_Cons1)

lemma planned_cmds:
  "planned cd ex ps segs \<Longrightarrow> e \<in> set (concat segs) \<Longrightarrow>
     \<exists>p \<in> set ps. fst e = remove_cmd p \<or> fst e = add_cmd cd p \<or> fst e = context_cmd p"
proof (induction ps arbitrary: segs)
  case Nil
  then show ?case by simp
next
  case (Cons p ps)
  from Cons.prems(1) obtain seg rest where
    segs: "segs = seg # rest" and seg: "seg \<in> set (attempts (plan cd ex p))"
    and rest: "planned cd ex ps rest"
    by (auto simp: planned_Cons)
  from Cons.prems(2) segs have "e \<in> set seg \<or> e \<in> set (concat rest)" by simp
  then show ?case
  proof
    assume "e \<in> set seg"
    from attempt_cmds [OF seg this] show ?thesis by simp
  next
    assume "e \<in> set (concat rest)"
    from Cons.IH [OF rest this] show ?thesis by auto
  qed
qed

lemma planned_other:
  assumes "planned cd ex ps segs" "p \<notin> set ps"
  shows "(remove_cmd p, ok) \<notin> set (concat segs)"
    and "(add_cmd cd p, ok) \<notin> set (concat segs)"
    and "(context_cmd p, ok) \<notin> set (concat segs)"
  using planned_cmds [OF assms(1), of "(remove_cmd p, ok)"]
    planned_cmds [OF assms(1), of "(add_cmd cd p, ok)"]
    planned_cmds [OF assms(1), of "(context_cmd p, ok)"] assms(2)
  by auto

lemma planned_count:
  "planned cd ex ps segs \<Longrightarrow> distinct ps \<Longrightarrow>
     length (filter (\<lambda>(p, seg). all_ok seg \<and> Q p) (zip ps segs)) =
     length (filter (\<lambda>p. (context_cmd p, True) \<in> set (concat segs) \<and> Q p) ps)"
proof (induction ps arbitrary: segs)
  case Nil
  then show ?case by simp
next
  case (Cons p ps)
  from Cons.prems(1) obtain seg rest where
    segs: "segs = seg # rest" and seg: "seg \<in> set (attempts (plan cd ex p))"
    and rest: "planned cd ex ps rest"
    by (auto simp: planned_Cons)
  from Cons.prems(2) have p: "p \<notin> set ps" and d: "distinct ps" by simp_all
  have head: "(context_cmd p, True) \<in> set (concat segs) \<longleftrightarrow> all_ok seg"
    using planned_other(3) [OF rest p] attempt_counted [OF seg] segs by auto
  have tail: "(context_cmd q, True) \<in> set (concat segs) \<longleftrightarrow> (context_cmd q, True) \<in> set (concat rest)"
    if "q \<in> set ps" for q
  proof -
    from that p have "q \<noteq> p" by auto
    then have "(context_cmd q, True) \<notin> set seg"
      using attempt_cmds [OF seg, of "(context_cmd q, True)"] by auto
    then show ?thesis using segs by simp
  qed
  have "filter (\<lambda>q. (context_cmd q, True) \<in> set (concat segs) \<and> Q q) ps =
        filter (\<lambda>q. (context_cmd q, True) \<in> set (concat rest) \<and> Q q) ps"
  proof (rule filter_cong)
    show "ps = ps" ..
  next
    fix q assume "q \<in> set ps"
    from tail [OF this]
    show "((context_cmd q, True) \<in> set (concat segs) \<and> Q q) =
          ((context_cmd q, True) \<in> set (concat rest) \<and> Q q)"
      by blast
  qed
  then show ?case
    using Cons.IH [OF rest d] head segs by simp
qed

lemma planned_counted_add:
  assumes "planned cd ex ps segs" "(context_cmd p, True) \<in> set (concat segs)"
  shows "(add_cmd cd p, True) \<in> set (concat segs)"
  using assms
proof (induction ps arbitrary: segs)
  case Nil
  then show ?case by simp
next
  case (Cons q ps)
  from Cons.prems(1) obtain seg rest where
    segs: "segs = seg # rest" and seg: "seg \<in> set (attempts (plan cd ex q))"
    and rest: "planned cd ex ps rest"
    by (auto simp: planned_Cons)
  from Cons.prems(2) segs
  have "(context_cmd p, True) \<in> set seg \<or> (context_cmd p, True) \<in> set (concat rest)" by simp
  then show ?case
  proof
    assume a: "(context_cmd p, True) \<in> set seg"
    from attempt_cmds [OF seg a] have "p = q" by simp
    with attempt_counted_add [OF seg] a segs show ?thesis by simp
  next
    assume "(context_cmd p, True) \<in> set (concat rest)"
    from Cons.IH [OF rest this] segs show ?thesis by simp
  qed
qed

lemma planned_each:
  "planned cd ex ps segs \<Longrightarrow> p \<in> set ps \<Longrightarrow>
     (\<exists>ok. (add_cmd cd p, ok) \<in> set (concat segs)) \<or> (remove_cmd p, False) \<in> set (concat segs)"
proof (induction ps arbitrary: segs)
  case Nil
  then show ?case by simp
next
  case (Cons q ps)
  from Cons.prems(1) obtain seg rest where
    segs: "segs = seg # rest" and seg: "seg \<in> set (attempts (plan cd ex q))"
    and rest: "planned cd ex ps rest"
    by (auto simp: planned_Cons)
  show ?case
  proof (cases "p = q")
    case True
    with attempt_nonempty [OF seg] segs show ?thesis by auto
  next
    case False
    with Cons.prems(2) have "p \<in> set ps" by simp
    from Cons.IH [OF rest this] segs show ?thesis by auto
  qed
qed

lemma planned_no_remove:
  "planned cd [] ps segs \<Longrightarrow> (CollectionRemove name, ok) \<notin> set (concat segs)"
proof (induction ps arbitrary: segs)
  case Nil
  then show ?case by simp
next
  case (Cons q ps)
  from Cons.prems(1) obtain seg rest where
    segs: "segs = seg # rest" and seg: "seg \<in> set (attempts (plan cd [] q))"
    and rest: "planned cd [] ps rest"
    by (auto simp: planned_Cons)
  from attempt_no_remove [OF seg] Cons.IH [OF rest] segs show ?case by simp
qed

lemma run_planned: "planned cd ex ps (fst (run_all qmd cd ex ps s))"
  unfolding planned_def by (rule run_all_attempts)

lemma after_calls_simps [simp]:
  "after_calls m b [] = b"
  "after_calls m b (e # evs) = after_calls m (after_call m b e) evs"
  "after_calls m b (evs @ evs') = after_calls m (after_calls m b evs) evs'"
  by (simp_all add: after_calls_def)

lemma qmd_present:
  assumes "keeps_collections qmd present"
  shows "present (snd (qmd c s)) m = after_call m (present s m) (c, fst (qmd c s) \<noteq> None)"
proof -
  from assms have k: "present (snd (qmd c s)) m =
          (case (c, fst (qmd c s)) of
             (CollectionRemove n, Some out) \<Rightarrow> m \<noteq> n \<and> present s m
           | (CollectionAdd path n, Some out) \<Rightarrow> m = n \<or> present s m
           | _ \<Rightarrow> present s m)"
    unfolding keeps_collections_def by blast
  show ?thesis
    unfolding k by (cases c; cases "fst (qmd c s)") auto
qed

lemma run_plan_present:
  assumes "keeps_collections qmd present"
  shows "present (snd (run_plan qmd cs s)) m = after_calls m (present s m) (fst (run_plan qmd cs s))"
proof (induction cs arbitrary: s)
  case Nil
  show ?case by simp
next
  case (Cons c cs)
  obtain r s1 where q: "qmd c s = (r, s1)" by (cases "qmd c s")
  have step: "present s1 m = after_call m (present s m) (c, r \<noteq> None)"
    using qmd_present [OF assms, of c s m] q by simp
  show ?case
  proof (cases r)
    case None
    with q step show ?thesis by simp
  next
    case (Some out)
    obtain seg s2 where a: "run_plan qmd cs s1 = (seg, s2)" by (cases "run_plan qmd cs s1")
    with q step Some Cons.IH [of s1] show ?thesis by simp
  qed
qed

lemma run_all_present:
  assumes "keeps_collections qmd present"
  shows "present (snd (run_all qmd cd ex ps s)) m =
         after_calls m (present s m) (concat (fst (run_all qmd cd ex ps s)))"
proof (induction ps arbitrary: s)
  case Nil
  show ?case by simp
next
  case (Cons p ps)
  obtain seg s1 where a: "run_plan qmd (plan cd ex p) s = (seg, s1)"
    by (cases "run_plan qmd (plan cd ex p) s")
  obtain segs s2 where b: "run_all qmd cd ex ps s1 = (segs, s2)"
    by (cases "run_all qmd cd ex ps s1")
  have "present s1 m = after_calls m (present s m) seg"
    using run_plan_present [OF assms, of "plan cd ex p" s m] a by simp
  moreover have "present s2 m = after_calls m (present s1 m) (concat segs)"
    using Cons.IH [of s1] b by simp
  ultimately show ?case using a b by simp
qed

lemma untouched_after_calls:
  "(\<And>e. e \<in> set evs \<Longrightarrow> \<not> touches (fst e) m) \<Longrightarrow> after_calls m b evs = b"
proof (induction evs arbitrary: b)
  case Nil
  show ?case by simp
next
  case (Cons e evs)
  obtain c ok where e: "e = (c, ok)" by (cases e)
  from Cons.prems [of e] have "\<not> touches c m" by (simp add: e)
  then have "after_call m b e = b"
    unfolding e by (cases c; cases ok) auto
  with Cons.IH [of b] Cons.prems show ?case by simp
qed

lemma planned_untouched:
  assumes "planned cd ex ps segs" "m \<notin> collectionName ` set ps"
  shows "after_calls m b (concat segs) = b"
proof (rule untouched_after_calls)
  fix e assume "e \<in> set (concat segs)"
  from planned_cmds [OF assms(1) this] assms(2) show "\<not> touches (fst e) m" by auto
qed

lemma planned_untouched_project:
  assumes "planned cd ex ps segs" "p \<notin> set ps"
  shows "after_calls (collectionName p) b (concat segs) = b"
proof -
  from assms(2) have "collectionName p \<notin> collectionName ` set ps" by auto
  from planned_untouched [OF assms(1) this] show ?thesis .
qed

lemma attempt_after:
  assumes "seg \<in> set (attempts (plan cd ex p))"
  shows "(add_cmd cd p, True) \<in> set seg \<Longrightarrow> after_calls (collectionName p) b seg = True"
    and "(remove_cmd p, True) \<in> set seg \<Longrightarrow> (add_cmd cd p, False) \<in> set seg \<Longrightarrow>
           after_calls (collectionName p) b seg = False"
  using assms
  by (auto simp: attempts_plan remove_cmd_def add_cmd_def context_cmd_def split: if_splits)

lemma planned_after:
  assumes "planned cd ex ps segs" "distinct ps"
  shows "(add_cmd cd p, True) \<in> set (concat segs) \<Longrightarrow>
           after_calls (collectionName p) b (concat segs) = True"
    and "(remove_cmd p, True) \<in> set (concat segs) \<Longrightarrow> (add_cmd cd p, False) \<in> set (concat segs) \<Longrightarrow>
           after_calls (collectionName p) b (concat segs) = False"
  using assms
proof (induction ps arbitrary: segs b)
  case Nil
  { case 1 then show ?case by simp }
  { case 2 then show ?case by simp }
next
  case (Cons q ps)
  { case 1
    from 1(2) obtain seg rest where
      segs: "segs = seg # rest" and seg: "seg \<in> set (attempts (plan cd ex q))"
      and rest: "planned cd ex ps rest"
      by (auto simp: planned_Cons)
    from 1(3) have q: "q \<notin> set ps" and d: "distinct ps" by simp_all
    show ?case
    proof (cases "p = q")
      case True
      with 1(1) segs planned_other(2) [OF rest q] have "(add_cmd cd p, True) \<in> set seg" by auto
      with attempt_after(1) [OF seg] True
      have "after_calls (collectionName p) b seg = True" by simp
      moreover have "after_calls (collectionName p) True (concat rest) = True"
        using planned_untouched_project [OF rest q] True by simp
      ultimately show ?thesis using segs by simp
    next
      case False
      with attempt_cmds [OF seg, of "(add_cmd cd p, True)"]
      have "(add_cmd cd p, True) \<notin> set seg" by auto
      with 1(1) segs have "(add_cmd cd p, True) \<in> set (concat rest)" by simp
      from Cons.IH(1) [OF this rest d] segs show ?thesis by simp
    qed }
  { case 2
    from 2(3) obtain seg rest where
      segs: "segs = seg # rest" and seg: "seg \<in> set (attempts (plan cd ex q))"
      and rest: "planned cd ex ps rest"
      by (auto simp: planned_Cons)
    from 2(4) have q: "q \<notin> set ps" and d: "distinct ps" by simp_all
    show ?case
    proof (cases "p = q")
      case True
      with 2(1,2) segs planned_other(1,2) [OF rest q]
      have "(remove_cmd p, True) \<in> set seg" "(add_cmd cd p, False) \<in> set seg" by auto
      with attempt_after(2) [OF seg] True
      have "after_calls (collectionName p) b seg = False" by simp
      moreover have "after_calls (collectionName p) False (concat rest) = False"
        using planned_untouched_project [OF rest q] True by simp
      ultimately show ?thesis using segs by simp
    next
      case False
      with attempt_cmds [OF seg, of "(add_cmd cd p, False)"]
        attempt_cmds [OF seg, of "(remove_cmd p, True)"]
      have "(add_cmd cd p, False) \<notin> set seg" "(remove_cmd p, True) \<notin> set seg" by auto
      with 2(1,2) segs have "(remove_cmd p, True) \<in> set (concat rest)"
        "(add_cmd cd p, False) \<in> set (concat rest)" by simp_all
      from Cons.IH(2) [OF this rest d] segs show ?thesis by simp
    qed }
qed

lemma distinct_projects_of: "distinct (map fst entries) \<Longrightarrow> distinct (projects_of entries)"
  unfolding projects_of_def by (rule distinct_map_filter)

lemma qmd_ref_keeps: "keeps_collections (qmd_ref fails) (\<lambda>db name. name \<in> set (colls db))"
  unfolding keeps_collections_def
proof (intro allI)
  fix c s name
  show "(name \<in> set (colls (snd (qmd_ref fails c s)))) =
        (case (c, fst (qmd_ref fails c s)) of
           (CollectionRemove n, Some out) \<Rightarrow> name \<noteq> n \<and> name \<in> set (colls s)
         | (CollectionAdd path n, Some out) \<Rightarrow> name = n \<or> name \<in> set (colls s)
         | _ \<Rightarrow> name \<in> set (colls s))"
    by (cases c; cases "fails (tick s)") (auto simp: qmd_ref_def Let_def)
qed

lemma run_shape:
  obtains segs s' where
    "run_all qmd cd (queried qmd s) (projects_of entries) (snd (qmd CollectionList s)) = (segs, s')"
    "planned cd (queried qmd s) (projects_of entries) segs"
    "createQmdCollections qmd cd (Some entries) s =
       (Inr \<lparr>created = length (filter (\<lambda>(p, seg). all_ok seg \<and> collectionName p \<notin> set (queried qmd s))
                                  (zip (projects_of entries) segs)),
             recreated = length (filter (\<lambda>(p, seg). all_ok seg \<and> collectionName p \<in> set (queried qmd s))
                                  (zip (projects_of entries) segs))\<rparr>,
        \<lparr>engine = s',
         calls = (CollectionList, fst (qmd CollectionList s) \<noteq> None) # concat segs\<rparr>)"
proof -
  obtain segs s' where
    r: "run_all qmd cd (queried qmd s) (projects_of entries) (snd (qmd CollectionList s)) = (segs, s')"
    by (cases "run_all qmd cd (queried qmd s) (projects_of entries) (snd (qmd CollectionList s))")
  have p: "planned cd (queried qmd s) (projects_of entries) segs"
    using run_planned [of cd "queried qmd s" "projects_of entries" qmd "snd (qmd CollectionList s)"] r
    by simp
  show ?thesis
    by (rule that [OF r p]) (simp add: createQmdCollections_eq r tally_counts)
qed

lemma projects_of_emptied: "projects_of (map (\<lambda>(f, n). (f, emptied n)) entries) = projects_of entries"
proof (induction entries)
  case Nil
  show ?case by (simp add: projects_of_def)
next
  case (Cons a entries)
  obtain f n where a: "a = (f, n)" by (cases a)
  from Cons.IH show ?case unfolding a by (cases n) (simp_all add: projects_of_def)
qed

lemma length_filter_split:
  "length (filter (\<lambda>x. A x \<and> \<not> B x) xs) + length (filter (\<lambda>x. A x \<and> B x) xs) = length (filter A xs)"
  by (induction xs) auto

section \<open>The claims about the reconciler\<close>

text \<open>
  Claim C2, as the code has it. For every run over an existing output root, whatever the
  engine does: after the listing query the calls are, project directory after project
  directory in the order of the root, one run of the project's plan. The plan is remove,
  add, context registration when the derived name is among the names parsed from the
  listing, and add, context registration when it is not; a run of it stops at the first
  command that fails. A project is counted as recreated (its name was listed) or created
  (it was not) exactly when all its commands succeeded. No call names a collection that is
  not derived from a project directory.
\<close>

theorem reconcile_runs_each_plan:
  "\<exists>segs.
     calls (snd (createQmdCollections qmd cd (Some entries) s)) =
       (CollectionList, fst (qmd CollectionList s) \<noteq> None) # concat segs
   \<and> list_all2 (\<lambda>p seg. seg \<in> set (attempts (plan cd (queried qmd s) p))) (projects_of entries) segs
   \<and> fst (createQmdCollections qmd cd (Some entries) s) =
       Inr \<lparr>created = length (filter (\<lambda>(p, seg). all_ok seg \<and> collectionName p \<notin> set (queried qmd s))
                                 (zip (projects_of entries) segs)),
            recreated = length (filter (\<lambda>(p, seg). all_ok seg \<and> collectionName p \<in> set (queried qmd s))
                                 (zip (projects_of entries) segs))\<rparr>
   \<and> (\<forall>m. m \<notin> collectionName ` set (projects_of entries) \<longrightarrow>
          (\<forall>e \<in> set (calls (snd (createQmdCollections qmd cd (Some entries) s))). \<not> touches (fst e) m))"
proof -
  obtain segs s' where
    p: "planned cd (queried qmd s) (projects_of entries) segs"
    and c: "createQmdCollections qmd cd (Some entries) s =
       (Inr \<lparr>created = length (filter (\<lambda>(p, seg). all_ok seg \<and> collectionName p \<notin> set (queried qmd s))
                                  (zip (projects_of entries) segs)),
             recreated = length (filter (\<lambda>(p, seg). all_ok seg \<and> collectionName p \<in> set (queried qmd s))
                                  (zip (projects_of entries) segs))\<rparr>,
        \<lparr>engine = s',
         calls = (CollectionList, fst (qmd CollectionList s) \<noteq> None) # concat segs\<rparr>)"
    by (rule run_shape)
  have untouched: "\<not> touches (fst e) m"
    if "m \<notin> collectionName ` set (projects_of entries)"
      and "e \<in> set ((CollectionList, fst (qmd CollectionList s) \<noteq> None) # concat segs)" for m e
  proof (cases "e \<in> set (concat segs)")
    case True
    from planned_cmds [OF p True] that(1) show ?thesis by auto
  next
    case False
    with that(2) show ?thesis by auto
  qed
  show ?thesis
    apply (rule exI [of _ segs])
    using p untouched by (simp add: c planned_def)
qed

text \<open>
  The theorem at the specification's example of two known collections and three project
  directories, one of them known: one recreate, two creates, and the known collection
  without a directory is named by no call.
\<close>

theorem reconcile_runs_each_plan_witness:
  "fst (createQmdCollections (qmd_ref never) ''/h/.claude/converted-history'' (Some demo_root) demo_db)
     = Inr \<lparr>created = 2, recreated = 1\<rparr>
   \<and> list_all (\<lambda>e. \<not> touches (fst e) ''claude-old-conversations'')
        (calls (snd (createQmdCollections (qmd_ref never) ''/h/.claude/converted-history'' (Some demo_root) demo_db)))"
proof -
  have a: "''claude-old-conversations'' \<notin> collectionName ` set (projects_of demo_root)"
    by code_simp
  have b: "fst (createQmdCollections (qmd_ref never) ''/h/.claude/converted-history'' (Some demo_root) demo_db)
     = Inr \<lparr>created = 2, recreated = 1\<rparr>"
    by code_simp
  from reconcile_runs_each_plan [of "qmd_ref never" "''/h/.claude/converted-history''" demo_root demo_db] a
  have "\<forall>e \<in> set (calls (snd (createQmdCollections (qmd_ref never) ''/h/.claude/converted-history'' (Some demo_root) demo_db))).
          \<not> touches (fst e) ''claude-old-conversations''"
    by blast
  with b show ?thesis by (simp add: list_all_iff)
qed

text \<open>
  Claim C2 as stated fails where the remove fails: the project's name is in the listing,
  the remove is issued and throws, the add is never issued and nothing is counted.
\<close>

theorem failed_remove_is_not_recreated:
  "collectionName ''foo'' \<in> set (queried (qmd_ref (only_at 1)) demo_db)
   \<and> createQmdCollections (qmd_ref (only_at 1)) ''/h/.claude/converted-history''
        (Some [(''foo'', Dir [''2024-03-01-abcdef12.md''])]) demo_db =
      (Inr \<lparr>created = 0, recreated = 0\<rparr>,
       \<lparr>engine = \<lparr>colls = [''claude-foo-conversations'', ''claude-old-conversations''], tick = 2\<rparr>,
        calls = [(CollectionList, True), (CollectionRemove ''claude-foo-conversations'', False)]\<rparr>)"
  by code_simp

text \<open>
  Claim C5, as the code has it. The reconciler never looks into a project directory: its
  run on a root is its run on the same root with every directory emptied. Every directory
  of the root, with or without documents, has its add issued unless its remove failed, and
  every call other than the listing names the collection of a directory of the root (so an
  entry that is not a directory yields no operation).
\<close>

theorem reconcile_ignores_documents:
  "createQmdCollections qmd cd (Some (map (\<lambda>(f, n). (f, emptied n)) entries)) s =
     createQmdCollections qmd cd (Some entries) s
   \<and> (\<forall>p \<in> set (projects_of entries).
        (\<exists>ok. (add_cmd cd p, ok) \<in> set (calls (snd (createQmdCollections qmd cd (Some entries) s))))
        \<or> (remove_cmd p, False) \<in> set (calls (snd (createQmdCollections qmd cd (Some entries) s))))
   \<and> (\<forall>e \<in> set (calls (snd (createQmdCollections qmd cd (Some entries) s))).
        fst e = CollectionList
        \<or> (\<exists>p \<in> set (projects_of entries). touches (fst e) (collectionName p)))"
proof -
  obtain segs s' where
    p: "planned cd (queried qmd s) (projects_of entries) segs"
    and c: "calls (snd (createQmdCollections qmd cd (Some entries) s)) =
              (CollectionList, fst (qmd CollectionList s) \<noteq> None) # concat segs"
    by (rule run_shape [of qmd cd s entries]) simp
  have a: "createQmdCollections qmd cd (Some (map (\<lambda>(f, n). (f, emptied n)) entries)) s =
           createQmdCollections qmd cd (Some entries) s"
    by (simp add: createQmdCollections_eq projects_of_emptied)
  have b: "(\<exists>ok. (add_cmd cd q, ok) \<in> set (calls (snd (createQmdCollections qmd cd (Some entries) s))))
        \<or> (remove_cmd q, False) \<in> set (calls (snd (createQmdCollections qmd cd (Some entries) s)))"
    if "q \<in> set (projects_of entries)" for q
    using planned_each [OF p that] unfolding c by auto
  have d: "fst e = CollectionList \<or> (\<exists>p \<in> set (projects_of entries). touches (fst e) (collectionName p))"
    if "e \<in> set (calls (snd (createQmdCollections qmd cd (Some entries) s)))" for e
  proof (cases "e \<in> set (concat segs)")
    case True
    from planned_cmds [OF p True] obtain q where "q \<in> set (projects_of entries)"
      "fst e = remove_cmd q \<or> fst e = add_cmd cd q \<or> fst e = context_cmd q" by blast
    then have "q \<in> set (projects_of entries)" "touches (fst e) (collectionName q)" by auto
    then show ?thesis by blast
  next
    case False
    with that c show ?thesis by auto
  qed
  from a b d show ?thesis by blast
qed

text \<open>
  The theorem at the example root: emptying the directories changes nothing, and the empty
  directory \<open>baz\<close> has its collection added.
\<close>

theorem reconcile_ignores_documents_witness:
  "createQmdCollections (qmd_ref never) ''/h/.claude/converted-history''
      (Some [(''foo'', Dir []), (''notes.txt'', File), (''bar'', Dir []), (''baz'', Dir [])]) demo_db
   = createQmdCollections (qmd_ref never) ''/h/.claude/converted-history'' (Some demo_root) demo_db
   \<and> (add_cmd ''/h/.claude/converted-history'' ''baz'', True)
        \<in> set (calls (snd (createQmdCollections (qmd_ref never) ''/h/.claude/converted-history'' (Some demo_root) demo_db)))"
proof -
  have a: "map (\<lambda>(f, n). (f, emptied n)) demo_root =
           [(''foo'', Dir []), (''notes.txt'', File), (''bar'', Dir []), (''baz'', Dir [])]"
    by (simp add: demo_root_def)
  have b: "(add_cmd ''/h/.claude/converted-history'' ''baz'', True)
        \<in> set (calls (snd (createQmdCollections (qmd_ref never) ''/h/.claude/converted-history'' (Some demo_root) demo_db)))"
    by code_simp
  from reconcile_ignores_documents [of "qmd_ref never" "''/h/.claude/converted-history''" demo_root demo_db] a b
  show ?thesis by simp
qed

text \<open>
  Claim C5 as stated fails on a project directory without documents: on an engine that
  accepts every command the collection is added and counted as created.
\<close>

theorem empty_directory_gets_collection:
  "createQmdCollections (qmd_ref never) ''/home/u/.claude/converted-history''
     (Some [(''demo'', Dir [])]) \<lparr>colls = [], tick = 0\<rparr> =
   (Inr \<lparr>created = 1, recreated = 0\<rparr>,
    \<lparr>engine = \<lparr>colls = [''claude-demo-conversations''], tick = 3\<rparr>,
     calls = [(CollectionList, True),
              (CollectionAdd ''/home/u/.claude/converted-history/demo'' ''claude-demo-conversations'', True),
              (ContextAdd ''qmd://claude-demo-conversations/'' ''Claude conversation history for demo project'', True)]\<rparr>)"
  by code_simp

text \<open>
  Claim C9. When the listing command fails, no remove is issued, whatever the engine's
  state, nothing is counted as recreated, and the projects counted as created are those
  whose add and context registration both succeeded. The entries of a directory have
  distinct names.
\<close>

theorem failed_listing_means_no_remove:
  assumes "fst (qmd CollectionList s) = None" and "distinct (map fst entries)"
  shows "(\<forall>name ok. (CollectionRemove name, ok)
            \<notin> set (calls (snd (createQmdCollections qmd cd (Some entries) s))))
       \<and> fst (createQmdCollections qmd cd (Some entries) s) =
           Inr \<lparr>created = length (filter
                    (\<lambda>p. (add_cmd cd p, True) \<in> set (calls (snd (createQmdCollections qmd cd (Some entries) s)))
                       \<and> (context_cmd p, True) \<in> set (calls (snd (createQmdCollections qmd cd (Some entries) s))))
                    (projects_of entries)),
                recreated = 0\<rparr>"
proof -
  from assms(1) have ex: "queried qmd s = []" by (simp add: queried_def)
  obtain segs s' where
    p0: "planned cd (queried qmd s) (projects_of entries) segs"
    and c0: "createQmdCollections qmd cd (Some entries) s =
       (Inr \<lparr>created = length (filter (\<lambda>(p, seg). all_ok seg \<and> collectionName p \<notin> set (queried qmd s))
                                  (zip (projects_of entries) segs)),
             recreated = length (filter (\<lambda>(p, seg). all_ok seg \<and> collectionName p \<in> set (queried qmd s))
                                  (zip (projects_of entries) segs))\<rparr>,
        \<lparr>engine = s',
         calls = (CollectionList, fst (qmd CollectionList s) \<noteq> None) # concat segs\<rparr>)"
    by (rule run_shape)
  from p0 have p: "planned cd [] (projects_of entries) segs" by (simp add: ex)
  from c0 have c: "createQmdCollections qmd cd (Some entries) s =
       (Inr \<lparr>created = length (filter (\<lambda>(p, seg). all_ok seg \<and> True) (zip (projects_of entries) segs)),
             recreated = 0\<rparr>,
        \<lparr>engine = s', calls = (CollectionList, False) # concat segs\<rparr>)"
    by (simp add: ex assms(1))
  have d: "distinct (projects_of entries)" by (rule distinct_projects_of [OF assms(2)])
  have norm: "(\<forall>name ok. (CollectionRemove name, ok) \<notin> set ((CollectionList, False) # concat segs))"
    using planned_no_remove [OF p] by simp
  have same: "((add_cmd cd q, True) \<in> set ((CollectionList, False) # concat segs)
              \<and> (context_cmd q, True) \<in> set ((CollectionList, False) # concat segs))
            = ((context_cmd q, True) \<in> set (concat segs) \<and> True)" for q
    using planned_counted_add [OF p, of q] by auto
  have "length (filter (\<lambda>(p, seg). all_ok seg \<and> True) (zip (projects_of entries) segs)) =
        length (filter (\<lambda>q. (context_cmd q, True) \<in> set (concat segs) \<and> True) (projects_of entries))"
    by (rule planned_count [OF p d])
  then show ?thesis
    unfolding c fst_conv snd_conv world.simps using norm by (simp only: same) simp
qed

text \<open>
  The theorem on an engine whose listing fails and that knows the collection of \<open>foo\<close>:
  no remove of it, three creates.
\<close>

theorem failed_listing_means_no_remove_witness:
  "fst (qmd_ref (only_at 0) CollectionList demo_db) = None
   \<and> distinct (map fst demo_root)
   \<and> (CollectionRemove ''claude-foo-conversations'', True)
        \<notin> set (calls (snd (createQmdCollections (qmd_ref (only_at 0)) ''/h/.claude/converted-history'' (Some demo_root) demo_db)))
   \<and> fst (createQmdCollections (qmd_ref (only_at 0)) ''/h/.claude/converted-history'' (Some demo_root) demo_db)
       = Inr \<lparr>created = 3, recreated = 0\<rparr>"
proof -
  have a: "fst (qmd_ref (only_at 0) CollectionList demo_db) = None" by code_simp
  have d: "distinct (map fst demo_root)" by code_simp
  have r: "fst (createQmdCollections (qmd_ref (only_at 0)) ''/h/.claude/converted-history'' (Some demo_root) demo_db)
       = Inr \<lparr>created = 3, recreated = 0\<rparr>" by code_simp
  from failed_listing_means_no_remove [of "qmd_ref (only_at 0)" demo_db demo_root "''/h/.claude/converted-history''", OF a d] a d r
  show ?thesis by blast
qed

text \<open>
  Claim C10, as the code has it. Whatever the engine does, the function returns its
  counters (no failure of a command escapes it), and they add up to at most the number of
  project directories; they count exactly the projects whose context registration
  succeeded, so a project with a failed command is counted nowhere. On an engine that keeps
  its collections as the reference engine does: when a project's remove succeeded and its
  add failed, its collection is absent at the end of the run; when its add succeeded and
  its context registration failed, its collection is present at the end of the run.
\<close>

theorem reconcile_swallows_failures:
  "(\<exists>n. fst (createQmdCollections qmd cd (Some entries) s) = Inr n
        \<and> created n + recreated n \<le> length (projects_of entries))
   \<and> (distinct (map fst entries) \<longrightarrow>
        (\<forall>n. fst (createQmdCollections qmd cd (Some entries) s) = Inr n \<longrightarrow>
           created n + recreated n =
             length (filter (\<lambda>p. (context_cmd p, True)
                                 \<in> set (calls (snd (createQmdCollections qmd cd (Some entries) s))))
                       (projects_of entries))))
   \<and> (distinct (map fst entries) \<and> keeps_collections qmd present \<longrightarrow>
        (\<forall>p. (remove_cmd p, True) \<in> set (calls (snd (createQmdCollections qmd cd (Some entries) s)))
             \<and> (add_cmd cd p, False) \<in> set (calls (snd (createQmdCollections qmd cd (Some entries) s)))
             \<longrightarrow> \<not> present (engine (snd (createQmdCollections qmd cd (Some entries) s))) (collectionName p))
      \<and> (\<forall>p. (add_cmd cd p, True) \<in> set (calls (snd (createQmdCollections qmd cd (Some entries) s)))
             \<and> (context_cmd p, False) \<in> set (calls (snd (createQmdCollections qmd cd (Some entries) s)))
             \<longrightarrow> present (engine (snd (createQmdCollections qmd cd (Some entries) s))) (collectionName p)))"
proof -
  let ?ex = "queried qmd s" and ?ps = "projects_of entries"
  obtain segs s' where
    r: "run_all qmd cd ?ex ?ps (snd (qmd CollectionList s)) = (segs, s')"
    and p: "planned cd ?ex ?ps segs"
    and c: "createQmdCollections qmd cd (Some entries) s =
       (Inr \<lparr>created = length (filter (\<lambda>(p, seg). all_ok seg \<and> collectionName p \<notin> set ?ex) (zip ?ps segs)),
             recreated = length (filter (\<lambda>(p, seg). all_ok seg \<and> collectionName p \<in> set ?ex) (zip ?ps segs))\<rparr>,
        \<lparr>engine = s',
         calls = (CollectionList, fst (qmd CollectionList s) \<noteq> None) # concat segs\<rparr>)"
    by (rule run_shape)
  have len: "length segs = length ?ps"
    using p by (simp add: planned_def list_all2_lengthD)
  have split: "length (filter (\<lambda>(p, seg). all_ok seg \<and> collectionName p \<notin> set ?ex) (zip ?ps segs))
             + length (filter (\<lambda>(p, seg). all_ok seg \<and> collectionName p \<in> set ?ex) (zip ?ps segs))
             = length (filter (\<lambda>(p, seg). all_ok seg) (zip ?ps segs))"
    using length_filter_split [of "\<lambda>(p, seg). all_ok seg" "\<lambda>(p, seg). collectionName p \<in> set ?ex" "zip ?ps segs"]
    by (simp add: case_prod_unfold)
  have "length (filter (\<lambda>(p, seg). all_ok seg) (zip ?ps segs)) \<le> length (zip ?ps segs)"
    by (rule length_filter_le)
  with split len have one: "\<exists>n. fst (createQmdCollections qmd cd (Some entries) s) = Inr n
        \<and> created n + recreated n \<le> length ?ps"
    by (simp add: c)
  have two: "created n + recreated n =
             length (filter (\<lambda>p. (context_cmd p, True)
                                 \<in> set (calls (snd (createQmdCollections qmd cd (Some entries) s)))) ?ps)"
    if d: "distinct (map fst entries)" and n: "fst (createQmdCollections qmd cd (Some entries) s) = Inr n" for n
  proof -
    have dp: "distinct ?ps" by (rule distinct_projects_of [OF d])
    have "length (filter (\<lambda>(p, seg). all_ok seg \<and> True) (zip ?ps segs)) =
          length (filter (\<lambda>q. (context_cmd q, True) \<in> set (concat segs) \<and> True) ?ps)"
      by (rule planned_count [OF p dp])
    then have cnt: "length (filter (\<lambda>(p, seg). all_ok seg) (zip ?ps segs)) =
          length (filter (\<lambda>q. (context_cmd q, True) \<in> set (concat segs)) ?ps)"
      by simp
    from n have n_eq: "n = \<lparr>created = length (filter (\<lambda>(p, seg). all_ok seg \<and> collectionName p \<notin> set ?ex) (zip ?ps segs)),
             recreated = length (filter (\<lambda>(p, seg). all_ok seg \<and> collectionName p \<in> set ?ex) (zip ?ps segs))\<rparr>"
      by (simp add: c)
    have "created n + recreated n = length (filter (\<lambda>q. (context_cmd q, True) \<in> set (concat segs)) ?ps)"
      unfolding n_eq using split cnt by simp
    then show ?thesis by (simp add: c)
  qed
  have three: "\<not> present (engine (snd (createQmdCollections qmd cd (Some entries) s))) (collectionName q)"
    if d: "distinct (map fst entries)" and k: "keeps_collections qmd present"
      and a: "(remove_cmd q, True) \<in> set (calls (snd (createQmdCollections qmd cd (Some entries) s)))"
      and b: "(add_cmd cd q, False) \<in> set (calls (snd (createQmdCollections qmd cd (Some entries) s)))" for q
  proof -
    have dp: "distinct ?ps" by (rule distinct_projects_of [OF d])
    from a b have "(remove_cmd q, True) \<in> set (concat segs)" "(add_cmd cd q, False) \<in> set (concat segs)"
      by (simp_all add: c)
    from planned_after(2) [OF p dp this]
    have "after_calls (collectionName q) (present (snd (qmd CollectionList s)) (collectionName q)) (concat segs) = False" .
    moreover have "present s' (collectionName q) =
        after_calls (collectionName q) (present (snd (qmd CollectionList s)) (collectionName q)) (concat segs)"
      using run_all_present [OF k, of cd ?ex ?ps "snd (qmd CollectionList s)" "collectionName q"] r by simp
    ultimately show ?thesis by (simp add: c)
  qed
  have four: "present (engine (snd (createQmdCollections qmd cd (Some entries) s))) (collectionName q)"
    if d: "distinct (map fst entries)" and k: "keeps_collections qmd present"
      and a: "(add_cmd cd q, True) \<in> set (calls (snd (createQmdCollections qmd cd (Some entries) s)))" for q
  proof -
    have dp: "distinct ?ps" by (rule distinct_projects_of [OF d])
    from a have "(add_cmd cd q, True) \<in> set (concat segs)"
      by (simp add: c)
    from planned_after(1) [OF p dp this]
    have "after_calls (collectionName q) (present (snd (qmd CollectionList s)) (collectionName q)) (concat segs) = True" .
    moreover have "present s' (collectionName q) =
        after_calls (collectionName q) (present (snd (qmd CollectionList s)) (collectionName q)) (concat segs)"
      using run_all_present [OF k, of cd ?ex ?ps "snd (qmd CollectionList s)" "collectionName q"] r by simp
    ultimately show ?thesis by (simp add: c)
  qed
  from one two three four show ?thesis by blast
qed

text \<open>
  The theorem on the reference engine with the add of \<open>foo\<close> failing after its remove:
  the collection is gone at the end, and only the two other projects are counted.
\<close>

theorem reconcile_swallows_failures_witness:
  "distinct (map fst demo_root)
   \<and> keeps_collections (qmd_ref (only_at 2)) (\<lambda>db name. name \<in> set (colls db))
   \<and> (remove_cmd ''foo'', True)
        \<in> set (calls (snd (createQmdCollections (qmd_ref (only_at 2)) ''/h/.claude/converted-history'' (Some demo_root) demo_db)))
   \<and> (add_cmd ''/h/.claude/converted-history'' ''foo'', False)
        \<in> set (calls (snd (createQmdCollections (qmd_ref (only_at 2)) ''/h/.claude/converted-history'' (Some demo_root) demo_db)))
   \<and> collectionName ''foo''
        \<notin> set (colls (engine (snd (createQmdCollections (qmd_ref (only_at 2)) ''/h/.claude/converted-history'' (Some demo_root) demo_db))))
   \<and> fst (createQmdCollections (qmd_ref (only_at 2)) ''/h/.claude/converted-history'' (Some demo_root) demo_db)
       = Inr \<lparr>created = 2, recreated = 0\<rparr>"
proof -
  have d: "distinct (map fst demo_root)" by code_simp
  have k: "keeps_collections (qmd_ref (only_at 2)) (\<lambda>db name. name \<in> set (colls db))"
    by (rule qmd_ref_keeps)
  have a: "(remove_cmd ''foo'', True)
        \<in> set (calls (snd (createQmdCollections (qmd_ref (only_at 2)) ''/h/.claude/converted-history'' (Some demo_root) demo_db)))"
    by code_simp
  have b: "(add_cmd ''/h/.claude/converted-history'' ''foo'', False)
        \<in> set (calls (snd (createQmdCollections (qmd_ref (only_at 2)) ''/h/.claude/converted-history'' (Some demo_root) demo_db)))"
    by code_simp
  have r: "fst (createQmdCollections (qmd_ref (only_at 2)) ''/h/.claude/converted-history'' (Some demo_root) demo_db)
       = Inr \<lparr>created = 2, recreated = 0\<rparr>" by code_simp
  from reconcile_swallows_failures [of "qmd_ref (only_at 2)" "''/h/.claude/converted-history''" demo_root demo_db
      "\<lambda>db name. name \<in> set (colls db)"] d k a b
  have "collectionName ''foo''
        \<notin> set (colls (engine (snd (createQmdCollections (qmd_ref (only_at 2)) ''/h/.claude/converted-history'' (Some demo_root) demo_db))))"
    by blast
  with d k a b r show ?thesis by blast
qed

text \<open>
  Claim C10 as stated fails where the context registration fails after a successful add:
  the collection was removed and added again, so it is present at the end of the run,
  though no counter moved.
\<close>

theorem failed_context_leaves_collection:
  "createQmdCollections (qmd_ref (only_at 3)) ''/home/u/.claude/converted-history''
     (Some [(''demo'', Dir [''2024-03-01-abcdef12.md''])])
     \<lparr>colls = [''claude-demo-conversations''], tick = 0\<rparr> =
   (Inr \<lparr>created = 0, recreated = 0\<rparr>,
    \<lparr>engine = \<lparr>colls = [''claude-demo-conversations''], tick = 4\<rparr>,
     calls = [(CollectionList, True),
              (CollectionRemove ''claude-demo-conversations'', True),
              (CollectionAdd ''/home/u/.claude/converted-history/demo'' ''claude-demo-conversations'', True),
              (ContextAdd ''qmd://claude-demo-conversations/'' ''Claude conversation history for demo project'', False)]\<rparr>)"
  by code_simp

section \<open>Properties of the converter\<close>

subsection \<open>The tools\<close>

lemma cmdsubst_newline [simp]: "cmdsubst (s @ [CHR 0x0A]) = cmdsubst s"
  by (simp add: cmdsubst_def)

lemma cmdsubst_Nil [simp]: "cmdsubst [] = []"
  by (simp add: cmdsubst_def)

lemma cmdsubst_no_newline: "CHR 0x0A \<notin> set s \<Longrightarrow> cmdsubst s = s"
proof -
  assume a: "CHR 0x0A \<notin> set s"
  have "dropWhile (\<lambda>c. c = CHR 0x0A) (rev s) = rev s"
  proof (cases "rev s")
    case Nil
    then show ?thesis by simp
  next
    case (Cons c cs)
    with a have "c \<noteq> CHR 0x0A" by (metis list.set_intros(1) set_rev)
    with Cons show ?thesis by simp
  qed
  then show ?thesis by (simp add: cmdsubst_def)
qed

lemma jq_one:
  "jq sticky f [Record e] True =
     (case f e of Prints s \<Rightarrow> (s @ [CHR 0x0A], True) | Nothing \<Rightarrow> ([], True) | Raises \<Rightarrow> ([], False))"
  by (simp split: jq_result.splits)

lemma basename_of_file:
  assumes "CHR ''/'' \<notin> set name" "name \<noteq> []"
  shows "basename (dir @ ''/'' @ name) = name"
proof -
  from assms obtain c cs where r: "rev name = c # cs" by (cases "rev name") auto
  with assms(1) have c: "c \<noteq> CHR ''/''" by (metis list.set_intros(1) set_rev)
  have t: "takeWhile (\<lambda>c. c \<noteq> CHR ''/'') (rev name @ CHR ''/'' # rev dir) = rev name"
    using assms(1) by (auto simp add: takeWhile_tail)
  have d: "dropWhile (\<lambda>c. c = CHR ''/'') (rev name @ CHR ''/'' # rev dir) = rev name @ CHR ''/'' # rev dir"
    using r c by simp
  show ?thesis
    using t d r by (simp add: basename_def Let_def)
qed

lemma basename_suffix_of_log:
  assumes "CHR ''/'' \<notin> set stem" "stem \<noteq> []"
  shows "basename_suffix (dir @ ''/'' @ stem @ ''.jsonl'') ''.jsonl'' = stem"
proof -
  have "basename (dir @ ''/'' @ (stem @ ''.jsonl'')) = stem @ ''.jsonl''"
    by (rule basename_of_file) (use assms in auto)
  then show ?thesis
    using assms(2) by (simp add: basename_suffix_def Let_def suffix_def)
qed

lemma contains_nonempty: "contains pat s \<Longrightarrow> pat \<noteq> [] \<Longrightarrow> s \<noteq> []"
  by (cases s) auto

lemma is_worktree_nonempty: "is_worktree cwd \<Longrightarrow> cwd \<noteq> []"
  unfolding is_worktree_def using contains_nonempty by fastforce

lemma head1_newlines: "set s \<subseteq> {CHR 0x0A} \<Longrightarrow> head1 s = []"
  by (cases s) (auto simp: head1_def)

subsection \<open>The header and the document of a session\<close>

lemma jq_first_today [simp]: "jq_first (env\<lparr>today := d\<rparr>) f ls = jq_first env f ls"
  by (simp add: jq_first_def)

lemma jq_first_timestamp:
  assumes "first_line ls = [Record e]" "j_timestamp e = Some t"
  shows "jq_first env timestamp_filter ls = Some (cmdsubst (take 10 t))"
  using assms by (simp add: jq_first_def jq_one timestamp_filter_def)

lemma jq_first_sessionId:
  assumes "first_line ls = [Record e]"
  shows "jq_first env sessionId_filter ls =
           Some (case j_sessionId e of None \<Rightarrow> [] | Some s \<Rightarrow> cmdsubst s)"
  using assms by (simp add: jq_first_def jq_one sessionId_filter_def split: option.splits)

lemma jq_first_slug:
  assumes "first_line ls = [Record e]"
  shows "jq_first env slug_filter ls =
           Some (case j_slug e of None \<Rightarrow> ''unknown'' | Some s \<Rightarrow> cmdsubst s)"
  using assms by (simp add: jq_first_def jq_one slug_filter_def cmdsubst_def split: option.splits)

lemma read_header_today:
  assumes "first_line ls = [Record e]" "j_timestamp e = Some t" "cmdsubst (take 10 t) \<noteq> []"
  shows "read_header (env\<lparr>today := d\<rparr>) jsonl ls = read_header env jsonl ls"
  using assms(3)
  by (simp add: read_header_def jq_first_timestamp [OF assms(1,2)] jq_first_sessionId [OF assms(1)]
      jq_first_slug [OF assms(1)])

lemma read_header_Some:
  assumes "first_line ls = [Record e]"
  shows "\<exists>h. read_header env jsonl ls = Some h"
proof -
  have "\<exists>d. jq_first env timestamp_filter ls = Some d"
    using assms by (simp add: jq_first_def jq_one timestamp_filter_def split: option.splits)
  then show ?thesis
    by (auto simp add: read_header_def jq_first_sessionId [OF assms] jq_first_slug [OF assms])
qed

lemma document_today [simp]: "document (env\<lparr>today := d\<rparr>) cwd jsonl h ls = document env cwd jsonl h ls"
  by (simp add: document_def document_body_def)

lemma write_file_twice [simp]: "write_file p c (write_file p c fs) = write_file p c fs"
  by (induction fs) auto

lemma post_increment_today [simp]: "post_increment (env\<lparr>today := d\<rparr>) n = post_increment env n"
  by (simp add: post_increment_def)

lemma convert_session_again:
  assumes same: "read_header env2 (pd @ ''/'' @ name) ls = read_header env1 (pd @ ''/'' @ name) ls"
    and doc: "\<And>h. document env2 cwd (pd @ ''/'' @ name) h ls = document env1 cwd (pd @ ''/'' @ name) h ls"
    and interp: "errexit_redirect env2 = errexit_redirect env1"
                "\<And>n. post_increment env2 n = post_increment env1 n"
    and d: "dirs st2 = dirs (snd (convert_session env1 False cwd pd pcd (name, Log ls) st))"
    and f: "files st2 = files (snd (convert_session env1 False cwd pd pcd (name, Log ls) st))"
  shows "dirs (snd (convert_session env2 False cwd pd pcd (name, Log ls) st2))
           = dirs (snd (convert_session env1 False cwd pd pcd (name, Log ls) st))"
    and "files (snd (convert_session env2 False cwd pd pcd (name, Log ls) st2))
           = files (snd (convert_session env1 False cwd pd pcd (name, Log ls) st))"
    and "\<not> errexit_arith env1 \<or> converted_count st2 = converted_count st
           \<Longrightarrow> fst (convert_session env2 False cwd pd pcd (name, Log ls) st2)
                 = fst (convert_session env1 False cwd pd pcd (name, Log ls) st)"
proof -
  have all: "dirs (snd (convert_session env2 False cwd pd pcd (name, Log ls) st2))
           = dirs (snd (convert_session env1 False cwd pd pcd (name, Log ls) st))
       \<and> files (snd (convert_session env2 False cwd pd pcd (name, Log ls) st2))
           = files (snd (convert_session env1 False cwd pd pcd (name, Log ls) st))
       \<and> (\<not> errexit_arith env1 \<or> converted_count st2 = converted_count st
           \<longrightarrow> fst (convert_session env2 False cwd pd pcd (name, Log ls) st2)
                 = fst (convert_session env1 False cwd pd pcd (name, Log ls) st))"
  proof (cases "read_header env1 (pd @ ''/'' @ name) ls")
    case None
    with same d f show ?thesis by (simp add: convert_session_def)
  next
    case (Some h)
    have d': "dirs st2 = dirs st"
      using d Some by (simp add: convert_session_def Let_def)
    then have w: "can_write (pcd @ ''/'' @ md_name h) st2 = can_write (pcd @ ''/'' @ md_name h) st"
      by (simp add: can_write_def)
    have p: "\<not> errexit_arith env1 \<or> converted_count st2 = converted_count st
               \<Longrightarrow> post_increment env1 (converted_count st2) = post_increment env1 (converted_count st)"
      by (auto simp add: post_increment_def)
    show ?thesis
    proof (cases "can_write (pcd @ ''/'' @ md_name h) st")
      case True
      with Some have f': "files st2 = write_file (pcd @ ''/'' @ md_name h)
                                        (document env1 cwd (pd @ ''/'' @ name) h ls) (files st)"
        using f by (simp add: convert_session_def Let_def)
      from True Some same doc interp w d' f' p show ?thesis
        by (simp add: convert_session_def Let_def)
    next
      case False
      with Some have f': "files st2 = files st"
        using f by (simp add: convert_session_def Let_def)
      from False Some same interp w d' f' p show ?thesis
        by (simp add: convert_session_def Let_def)
    qed
  qed
  from all show "dirs (snd (convert_session env2 False cwd pd pcd (name, Log ls) st2))
           = dirs (snd (convert_session env1 False cwd pd pcd (name, Log ls) st))" by simp
  from all show "files (snd (convert_session env2 False cwd pd pcd (name, Log ls) st2))
           = files (snd (convert_session env1 False cwd pd pcd (name, Log ls) st))" by simp
  from all show "\<not> errexit_arith env1 \<or> converted_count st2 = converted_count st
           \<Longrightarrow> fst (convert_session env2 False cwd pd pcd (name, Log ls) st2)
                 = fst (convert_session env1 False cwd pd pcd (name, Log ls) st)" by simp
qed

text \<open>
  The whole script run twice, on two days, over the group of two dated sessions: the second
  run leaves the directories and the files as the first left them.
\<close>

lemma second_run_changes_nothing:
  "dirs (snd (run_converter (demo_env\<lparr>today := ''2026-11-04''\<rparr>) [] [demo_group]
            (snd (run_converter demo_env [] [demo_group] empty_sh))))
     = dirs (snd (run_converter demo_env [] [demo_group] empty_sh))
   \<and> files (snd (run_converter (demo_env\<lparr>today := ''2026-11-04''\<rparr>) [] [demo_group]
            (snd (run_converter demo_env [] [demo_group] empty_sh))))
     = files (snd (run_converter demo_env [] [demo_group] empty_sh))
   \<and> map fst (files (snd (run_converter demo_env [] [demo_group] empty_sh)))
     = [''/Users/u/.claude/converted-history/demo/2024-03-01-aaaaaaaa.md'',
        ''/Users/u/.claude/converted-history/demo/2024-03-01-cccccccc.md'']"
  by code_simp

text \<open>
  The same two runs by bash 5.2: each ends at the counter of groups, and the second leaves
  the one directory and no file, as the first did.
\<close>

lemma second_run_changes_nothing_bash5:
  "snd (run_converter (demo_env5\<lparr>today := ''2026-11-04''\<rparr>) [] [demo_group]
            (snd (run_converter demo_env5 [] [demo_group] empty_sh)))
     = snd (run_converter demo_env5 [] [demo_group] empty_sh)
   \<and> dirs (snd (run_converter demo_env5 [] [demo_group] empty_sh)) = [''/Users/u/.claude/converted-history'']
   \<and> files (snd (run_converter demo_env5 [] [demo_group] empty_sh)) = []"
  by code_simp

text \<open>
  Without a timestamp the name of the document follows the day of the run: the same log
  converted on two days leaves two documents.
\<close>

lemma undated_session_gets_second_file:
  "map fst (files (snd (convert_session (demo_env\<lparr>today := ''2026-11-04''\<rparr>) False ''/Users/u/git/demo''
         ''/Users/u/.claude/projects/-Users-u-git-demo'' ''/Users/u/.claude/converted-history/demo''
         (''a.jsonl'', Log [Record (no_fields\<lparr>j_sessionId := Some ''abcdef1234''\<rparr>)])
         (snd (convert_session (demo_env\<lparr>today := ''2026-11-03''\<rparr>) False ''/Users/u/git/demo''
           ''/Users/u/.claude/projects/-Users-u-git-demo'' ''/Users/u/.claude/converted-history/demo''
           (''a.jsonl'', Log [Record (no_fields\<lparr>j_sessionId := Some ''abcdef1234''\<rparr>)])
           (empty_sh\<lparr>dirs := [''/Users/u/.claude/converted-history/demo'']\<rparr>))))))
     = [''/Users/u/.claude/converted-history/demo/2026-11-03-abcdef12.md'',
        ''/Users/u/.claude/converted-history/demo/2026-11-04-abcdef12.md'']"
  by code_simp

subsection \<open>The originating path\<close>

lemma jq_cwd_newlines:
  assumes "\<forall>e. Record e \<in> set ls \<longrightarrow> j_cwd e = None \<or> j_cwd e = Some []"
  shows "set (fst (jq sticky cwd_filter ls ok)) \<subseteq> {CHR 0x0A}"
  using assms
proof (induction ls arbitrary: ok)
  case Nil
  show ?case by simp
next
  case (Cons l ls)
  then have IH: "\<And>ok. set (fst (jq sticky cwd_filter ls ok)) \<subseteq> {CHR 0x0A}" by simp
  show ?case
  proof (cases l)
    case Blank
    with IH show ?thesis by simp
  next
    case Malformed
    then show ?thesis by simp
  next
    case (Record e)
    with Cons.prems have "j_cwd e = None \<or> j_cwd e = Some []" by simp
    then show ?thesis
    proof
      assume "j_cwd e = None"
      then have "cwd_filter e = Nothing" by (simp add: cwd_filter_def)
      with Record IH [of "if sticky then ok else True"] show ?thesis by simp
    next
      assume "j_cwd e = Some []"
      then have f: "cwd_filter e = Prints []" by (simp add: cwd_filter_def)
      obtain printed ok' where j: "jq sticky cwd_filter ls (if sticky then ok else True) = (printed, ok')"
        by (cases "jq sticky cwd_filter ls (if sticky then ok else True)")
      with IH [of "if sticky then ok else True"] have "set printed \<subseteq> {CHR 0x0A}" by simp
      with Record f j show ?thesis by simp
    qed
  qed
qed

lemma extract_cwd_none:
  assumes "\<forall>e. Record e \<in> set (take 5 ls) \<longrightarrow> j_cwd e = None \<or> j_cwd e = Some []"
  shows "extract_cwd env ls = []"
  using head1_newlines [OF jq_cwd_newlines [OF assms]]
  by (simp add: extract_cwd_def)

subsection \<open>The counter of groups under \<open>set -e\<close>\<close>

text \<open>
  Where the interpreter applies \<open>set -e\<close> to the arithmetic command, the script ends at
  the first group it counts, whatever the group holds: the counter is 0 there.
\<close>

lemma first_counted_group_halts:
  assumes "errexit_arith env" "project_count st = 0" "find_jsonl entries \<noteq> []"
  shows "process_group env dry_run (name, Folder entries) st = (Halt, st\<lparr>project_count := 1\<rparr>)"
proof -
  from assms(3) obtain first_name first_log others
    where "find_jsonl entries = (first_name, first_log) # others"
    by (cases "find_jsonl entries") auto
  with assms(1,2) show ?thesis
    by (simp add: process_group_def Let_def post_increment_def)
qed

lemma first_counted_group_ends_the_run:
  "run_converter demo_env5 [] [demo_group] empty_sh
     = (Halt, \<lparr>dirs = [''/Users/u/.claude/converted-history''], files = [], stdout = [],
                project_count = 1, converted_count = 0\<rparr>)
   \<and> fst (run_converter demo_env5 [] [broken_group] empty_sh) = Halt
   \<and> files (snd (run_converter demo_env5 [] [broken_group] empty_sh)) = []
   \<and> run_converter demo_env5 [''--dry-run''] [demo_group] empty_sh
     = (Halt, \<lparr>dirs = [''/Users/u/.claude/converted-history''], files = [], stdout = [],
                project_count = 1, converted_count = 0\<rparr>)"
  by code_simp

subsection \<open>Groups that are passed over\<close>

text \<open>
  A group whose originating path contains \<open>.ralphy-worktrees\<close> or \<open>/agent-\<close>: on every
  interpreter neither a directory nor a file is made, and the output root, whose
  directories are all the reconciler makes collections of, is as it was. Unless the script
  ends at the counter, a line saying so is printed and the loop goes on to the next group.
\<close>

lemma worktree_group_passed_over:
  assumes "find_jsonl entries = (first_name, first_log) # others"
    and "is_worktree (extract_cwd env (lines_of first_log))"
  shows "process_group env dry_run (name, Folder entries) st =
           (if errexit_arith env \<and> project_count st = 0 then (Halt, st\<lparr>project_count := 1\<rparr>)
            else (Go, echo (Skipping_worktree (extract_cwd env (lines_of first_log)))
                        (st\<lparr>project_count := project_count st + 1\<rparr>)))"
    and "dirs (snd (process_group env dry_run (name, Folder entries) st)) = dirs st"
    and "files (snd (process_group env dry_run (name, Folder entries) st)) = files st"
    and "output_root env (snd (process_group env dry_run (name, Folder entries) st)) = output_root env st"
  using assms is_worktree_nonempty [OF assms(2)]
  by (simp_all add: process_group_def Let_def echo_def output_root_def post_increment_def)

lemma worktree_group_skipped_by_bash3:
  "run_converter demo_env [] [worktree_group] empty_sh
     = (Go, \<lparr>dirs = [''/Users/u/.claude/converted-history''], files = [],
              stdout = [Skipping_worktree ''/Users/u/git/demo/.ralphy-worktrees/agent-1'',
                        Summary 1 0 ''/Users/u/.claude/converted-history''],
              project_count = 1, converted_count = 0\<rparr>)"
  by code_simp

text \<open>
  A group in whose first log no record among the first five lines has a working directory
  that is not empty: on every interpreter neither a directory nor a file is made. Unless
  the script ends at the counter, the warning is printed and the loop goes on to the next
  group.
\<close>

lemma group_without_cwd_passed_over:
  assumes "find_jsonl entries = (first_name, first_log) # others"
    and "\<forall>e. Record e \<in> set (take 5 (lines_of first_log)) \<longrightarrow> j_cwd e = None \<or> j_cwd e = Some []"
  shows "process_group env dry_run (name, Folder entries) st =
           (if errexit_arith env \<and> project_count st = 0 then (Halt, st\<lparr>project_count := 1\<rparr>)
            else (Go, echo (Warning_no_cwd (projects_dir env @ ''/'' @ name @ ''/'' @ first_name))
                        (st\<lparr>project_count := project_count st + 1\<rparr>)))"
    and "dirs (snd (process_group env dry_run (name, Folder entries) st)) = dirs st"
    and "files (snd (process_group env dry_run (name, Folder entries) st)) = files st"
    and "output_root env (snd (process_group env dry_run (name, Folder entries) st)) = output_root env st"
  using assms(1) extract_cwd_none [OF assms(2)]
  by (simp_all add: process_group_def Let_def echo_def output_root_def post_increment_def)

lemma group_without_cwd_skipped_by_bash3:
  "run_converter demo_env [] [no_cwd_group] empty_sh
     = (Go, \<lparr>dirs = [''/Users/u/.claude/converted-history''], files = [],
              stdout = [Warning_no_cwd ''/Users/u/.claude/projects/-tmp-x/a.jsonl'',
                        Summary 1 0 ''/Users/u/.claude/converted-history''],
              project_count = 1, converted_count = 0\<rparr>)"
  by code_simp

subsection \<open>Lines that do not parse\<close>

text \<open>
  A first line that does not parse ends the script in the first assignment of the loop
  body, in a dry run too. A line that does not parse further down is met by the \<open>jq\<close>
  of the body only, whose failure is caught by \<open>||\<close>: the document is written, with
  what was printed before that line and the marker.
\<close>

lemma malformed_first_line_halts:
  assumes "first_line ls = [Malformed]"
  shows "convert_session env dry_run cwd pd pcd (name, Log ls) st = (Halt, st)"
  using assms by (simp add: convert_session_def read_header_def jq_first_def)

lemma jq_malformed_fails:
  "Malformed \<in> set ls \<Longrightarrow> \<not> snd (jq sticky f ls ok)"
proof (induction ls arbitrary: ok)
  case Nil
  then show ?case by simp
next
  case (Cons l ls)
  show ?case
  proof (cases l)
    case Blank
    with Cons show ?thesis by simp
  next
    case Malformed
    then show ?thesis by simp
  next
    case (Record e)
    with Cons.prems have m: "Malformed \<in> set ls" by simp
    show ?thesis
    proof (cases "f e")
      case (Prints s)
      obtain printed ok' where j: "jq sticky f ls (if sticky then ok else True) = (printed, ok')"
        by (cases "jq sticky f ls (if sticky then ok else True)")
      with Cons.IH [OF m, of "if sticky then ok else True"] have "\<not> ok'" by simp
      with Record Prints j show ?thesis by simp
    next
      case Nothing
      with Record Cons.IH [OF m, of "if sticky then ok else True"] show ?thesis by simp
    next
      case Raises
      with Record Cons.IH [OF m, of False] show ?thesis by simp
    qed
  qed
qed

lemma malformed_later_line_is_marked:
  assumes "Malformed \<in> set ls" "can_write (pcd @ ''/'' @ md_name h) st"
    and "read_header env (pd @ ''/'' @ name) ls = Some h"
  shows "convert_session env False cwd pd pcd (name, Log ls) st =
           (post_increment env (converted_count st),
            st\<lparr>files := write_file (pcd @ ''/'' @ md_name h)
                              (document_header cwd h
                               @ fst (jq (jq_sticky env) body_filter ls True)
                               @ ''Error parsing '' @ pd @ ''/'' @ name @ [CHR 0x0A]) (files st),
                    converted_count := converted_count st + 1\<rparr>)"
proof -
  obtain printed ok where j: "jq (jq_sticky env) body_filter ls True = (printed, ok)"
    by (cases "jq (jq_sticky env) body_filter ls True")
  with jq_malformed_fails [OF assms(1), of "jq_sticky env" body_filter True] have "\<not> ok" by simp
  with j have "document_body env (pd @ ''/'' @ name) ls =
                 fst (jq (jq_sticky env) body_filter ls True) @ ''Error parsing '' @ pd @ ''/'' @ name @ [CHR 0x0A]"
    by (simp add: document_body_def)
  with assms(2,3) show ?thesis
    by (simp add: convert_session_def Let_def document_def)
qed

subsection \<open>A dry run writes no file\<close>

lemma convert_session_dry_run:
  "files (snd (convert_session env True cwd pd pcd m st)) = files st"
  by (cases m) (simp add: convert_session_def Let_def echo_def split: option.splits)

lemma for_sessions_dry_run:
  "files (snd (for_sessions env True cwd pd pcd ms st)) = files st"
proof (induction ms arbitrary: st)
  case Nil
  show ?case by simp
next
  case (Cons m ms)
  obtain fl st' where c: "convert_session env True cwd pd pcd m st = (fl, st')"
    by (cases "convert_session env True cwd pd pcd m st")
  with convert_session_dry_run [of env cwd pd pcd m st] have f: "files st' = files st" by simp
  show ?case
  proof (cases fl)
    case Go
    with c f Cons.IH [of st'] show ?thesis by simp
  next
    case Halt
    with c f show ?thesis by simp
  qed
qed

lemma process_group_dry_run:
  "files (snd (process_group env True m st)) = files st"
proof -
  obtain name t where m: "m = (name, t)" by (cases m)
  show ?thesis
  proof (cases t)
    case (Log ls)
    with m show ?thesis by (simp add: process_group_def)
  next
    case (Folder entries)
    show ?thesis
    proof (cases "find_jsonl entries")
      case Nil
      with m Folder show ?thesis by (simp add: process_group_def)
    next
      case (Cons a others)
      obtain first_name first_log where a: "a = (first_name, first_log)" by (cases a)
      let ?st1 = "st\<lparr>project_count := project_count st + 1\<rparr>"
      let ?cwd = "extract_cwd env (lines_of first_log)"
      let ?pcd = "CONVERT_DIR env @ ''/'' @ basename ?cwd"
      let ?st2 = "echo (Processing (basename ?cwd) (length (find_jsonl entries))) (mkdir_p ?pcd ?st1)"
      obtain fl st3 where r: "for_sessions env True ?cwd (projects_dir env @ ''/'' @ name) ?pcd
                                 (glob ''.jsonl'' entries) ?st2 = (fl, st3)"
        by (cases "for_sessions env True ?cwd (projects_dir env @ ''/'' @ name) ?pcd
                                 (glob ''.jsonl'' entries) ?st2")
      with for_sessions_dry_run [of env ?cwd "projects_dir env @ ''/'' @ name" ?pcd "glob ''.jsonl'' entries" ?st2]
      have "files st3 = files st" by (simp add: echo_def mkdir_p_def)
      with m Folder Cons a r show ?thesis
        by (cases fl) (simp_all add: process_group_def Let_def echo_def)
    qed
  qed
qed

lemma for_groups_dry_run:
  "files (snd (for_groups env True ms st)) = files st"
proof (induction ms arbitrary: st)
  case Nil
  show ?case by simp
next
  case (Cons m ms)
  obtain fl st' where c: "process_group env True m st = (fl, st')"
    by (cases "process_group env True m st")
  with process_group_dry_run [of env m st] have f: "files st' = files st" by simp
  show ?case
  proof (cases fl)
    case Go
    with c f Cons.IH [of st'] show ?thesis by simp
  next
    case Halt
    with c f show ?thesis by simp
  qed
qed

lemma dry_run_writes_no_file:
  assumes "args \<noteq> []"
  shows "files (snd (run_converter env args root st)) = files st"
proof (cases "\<exists>a \<in> set args. a \<noteq> ''--dry-run''")
  case True
  then show ?thesis by (simp add: run_converter_def Let_def echo_def)
next
  case False
  let ?st0 = "st\<lparr>stdout := [], project_count := 0, converted_count := 0\<rparr>"
  show ?thesis
  proof (cases "can_mkdir (CONVERT_DIR env) ?st0")
    case no: False
    with False show ?thesis by (simp add: run_converter_def Let_def)
  next
    case yes: True
    obtain fl st2 where r: "for_groups env True (glob [] root) (mkdir_p (CONVERT_DIR env) ?st0) = (fl, st2)"
      by (cases "for_groups env True (glob [] root) (mkdir_p (CONVERT_DIR env) ?st0)")
    with for_groups_dry_run [of env "glob [] root" "mkdir_p (CONVERT_DIR env) ?st0"]
    have "files st2 = files st" by (simp add: mkdir_p_def)
    with False yes assms r show ?thesis
      by (cases fl) (simp_all add: run_converter_def Let_def echo_def)
  qed
qed

subsection \<open>A dry run followed by the reconciler\<close>

text \<open>
  The directory a dry run leaves behind is empty, and the reconciler makes a collection of
  it.
\<close>

lemma dry_run_then_reconcile:
  "output_root demo_env (snd (run_converter demo_env [''--dry-run''] [demo_group] empty_sh))
     = [(''demo'', Dir [])]
   \<and> fst (createQmdCollections (qmd_ref never) (CONVERT_DIR demo_env)
        (Some (output_root demo_env (snd (run_converter demo_env [''--dry-run''] [demo_group] empty_sh))))
        \<lparr>colls = [], tick = 0\<rparr>)
     = Inr \<lparr>created = 1, recreated = 0\<rparr>"
  by code_simp

section \<open>The claims about the converter\<close>

text \<open>
  Claim C1. A session log whose first record carries a timestamp (of whose first ten
  characters the script keeps a date that is not empty) is converted the same on any two
  days: the values read from the first line, and with them the name of the document, are
  the same, the bytes of the document are the same, and converting the log a second time,
  in a state whose directories and files are those the first conversion left, leaves the
  directories and the files exactly as the first conversion left them. The second
  conversion also ends the same way as the first, when the counter of converted sessions
  stands as it stood the first time (every run of the script starts it at 0) or the
  interpreter does not apply \<open>set -e\<close> to \<open>((converted_count++))\<close>; for such an
  interpreter this holds in particular in the very state the first conversion left.
\<close>

theorem reconversion_is_idempotent:
  assumes "first_line ls = [Record e]" "j_timestamp e = Some t" "cmdsubst (take 10 t) \<noteq> []"
    and "dirs st2 = dirs (snd (convert_session (env\<lparr>today := d1\<rparr>) False cwd pd pcd (name, Log ls) st))"
    and "files st2 = files (snd (convert_session (env\<lparr>today := d1\<rparr>) False cwd pd pcd (name, Log ls) st))"
  shows "read_header (env\<lparr>today := d2\<rparr>) (pd @ ''/'' @ name) ls = read_header (env\<lparr>today := d1\<rparr>) (pd @ ''/'' @ name) ls
       \<and> (\<forall>h. document (env\<lparr>today := d2\<rparr>) cwd (pd @ ''/'' @ name) h ls
               = document (env\<lparr>today := d1\<rparr>) cwd (pd @ ''/'' @ name) h ls)
       \<and> (\<not> errexit_arith env \<or> converted_count st2 = converted_count st
            \<longrightarrow> fst (convert_session (env\<lparr>today := d2\<rparr>) False cwd pd pcd (name, Log ls) st2)
                  = fst (convert_session (env\<lparr>today := d1\<rparr>) False cwd pd pcd (name, Log ls) st))
       \<and> dirs (snd (convert_session (env\<lparr>today := d2\<rparr>) False cwd pd pcd (name, Log ls) st2))
           = dirs (snd (convert_session (env\<lparr>today := d1\<rparr>) False cwd pd pcd (name, Log ls) st))
       \<and> files (snd (convert_session (env\<lparr>today := d2\<rparr>) False cwd pd pcd (name, Log ls) st2))
           = files (snd (convert_session (env\<lparr>today := d1\<rparr>) False cwd pd pcd (name, Log ls) st))"
proof -
  have same: "read_header (env\<lparr>today := d2\<rparr>) (pd @ ''/'' @ name) ls
            = read_header (env\<lparr>today := d1\<rparr>) (pd @ ''/'' @ name) ls"
    by (simp add: read_header_today [OF assms(1,2,3)])
  have doc: "document (env\<lparr>today := d2\<rparr>) cwd (pd @ ''/'' @ name) h ls
           = document (env\<lparr>today := d1\<rparr>) cwd (pd @ ''/'' @ name) h ls" for h
    by simp
  have i1: "errexit_redirect (env\<lparr>today := d2\<rparr>) = errexit_redirect (env\<lparr>today := d1\<rparr>)"
    by simp
  have i2: "post_increment (env\<lparr>today := d2\<rparr>) n = post_increment (env\<lparr>today := d1\<rparr>) n" for n
    by simp
  note again = convert_session_again [of "env\<lparr>today := d2\<rparr>" pd name ls "env\<lparr>today := d1\<rparr>" cwd st2 pcd st,
      OF same doc i1 i2 assms(4,5)]
  have fl: "\<not> errexit_arith env \<or> converted_count st2 = converted_count st
            \<longrightarrow> fst (convert_session (env\<lparr>today := d2\<rparr>) False cwd pd pcd (name, Log ls) st2)
                  = fst (convert_session (env\<lparr>today := d1\<rparr>) False cwd pd pcd (name, Log ls) st)"
    using again(3) by simp
  from same doc fl again(1,2) show ?thesis by blast
qed

text \<open>
  The theorem at the session \<open>abcdef1234\<close>, converted on two consecutive days, the
  second time by a run that counts from 0 again: one document, under the same name.
\<close>

theorem reconversion_is_idempotent_witness:
  "first_line (lines_of (session ''/Users/u/git/demo'' ''abcdef1234''))
     = [Record (user_event ''/Users/u/git/demo'' ''abcdef1234'' ''hello'')]
   \<and> j_timestamp (user_event ''/Users/u/git/demo'' ''abcdef1234'' ''hello'') = Some ''2024-03-01T09:30:00.000Z''
   \<and> cmdsubst (take 10 ''2024-03-01T09:30:00.000Z'') \<noteq> []
   \<and> fst (convert_session (demo_env\<lparr>today := ''2026-11-04''\<rparr>) False ''/Users/u/git/demo''
         ''/Users/u/.claude/projects/-Users-u-git-demo'' ''/Users/u/.claude/converted-history/demo''
         (''a.jsonl'', Log (lines_of (session ''/Users/u/git/demo'' ''abcdef1234'')))
         ((snd (convert_session (demo_env\<lparr>today := ''2026-11-03''\<rparr>) False ''/Users/u/git/demo''
           ''/Users/u/.claude/projects/-Users-u-git-demo'' ''/Users/u/.claude/converted-history/demo''
           (''a.jsonl'', Log (lines_of (session ''/Users/u/git/demo'' ''abcdef1234'')))
           (empty_sh\<lparr>dirs := [''/Users/u/.claude/converted-history/demo'']\<rparr>)))\<lparr>stdout := [], converted_count := 0\<rparr>))
     = fst (convert_session (demo_env\<lparr>today := ''2026-11-03''\<rparr>) False ''/Users/u/git/demo''
           ''/Users/u/.claude/projects/-Users-u-git-demo'' ''/Users/u/.claude/converted-history/demo''
           (''a.jsonl'', Log (lines_of (session ''/Users/u/git/demo'' ''abcdef1234'')))
           (empty_sh\<lparr>dirs := [''/Users/u/.claude/converted-history/demo'']\<rparr>))
   \<and> files (snd (convert_session (demo_env\<lparr>today := ''2026-11-04''\<rparr>) False ''/Users/u/git/demo''
         ''/Users/u/.claude/projects/-Users-u-git-demo'' ''/Users/u/.claude/converted-history/demo''
         (''a.jsonl'', Log (lines_of (session ''/Users/u/git/demo'' ''abcdef1234'')))
         ((snd (convert_session (demo_env\<lparr>today := ''2026-11-03''\<rparr>) False ''/Users/u/git/demo''
           ''/Users/u/.claude/projects/-Users-u-git-demo'' ''/Users/u/.claude/converted-history/demo''
           (''a.jsonl'', Log (lines_of (session ''/Users/u/git/demo'' ''abcdef1234'')))
           (empty_sh\<lparr>dirs := [''/Users/u/.claude/converted-history/demo'']\<rparr>)))\<lparr>stdout := [], converted_count := 0\<rparr>)))
     = files (snd (convert_session (demo_env\<lparr>today := ''2026-11-03''\<rparr>) False ''/Users/u/git/demo''
           ''/Users/u/.claude/projects/-Users-u-git-demo'' ''/Users/u/.claude/converted-history/demo''
           (''a.jsonl'', Log (lines_of (session ''/Users/u/git/demo'' ''abcdef1234'')))
           (empty_sh\<lparr>dirs := [''/Users/u/.claude/converted-history/demo'']\<rparr>)))
   \<and> map fst (files (snd (convert_session (demo_env\<lparr>today := ''2026-11-03''\<rparr>) False ''/Users/u/git/demo''
           ''/Users/u/.claude/projects/-Users-u-git-demo'' ''/Users/u/.claude/converted-history/demo''
           (''a.jsonl'', Log (lines_of (session ''/Users/u/git/demo'' ''abcdef1234'')))
           (empty_sh\<lparr>dirs := [''/Users/u/.claude/converted-history/demo'']\<rparr>))))
     = [''/Users/u/.claude/converted-history/demo/2024-03-01-abcdef12.md'']"
proof -
  have a: "first_line (lines_of (session ''/Users/u/git/demo'' ''abcdef1234''))
     = [Record (user_event ''/Users/u/git/demo'' ''abcdef1234'' ''hello'')]"
    by (simp add: first_line_def session_def)
  have b: "j_timestamp (user_event ''/Users/u/git/demo'' ''abcdef1234'' ''hello'') = Some ''2024-03-01T09:30:00.000Z''"
    by (simp add: user_event_def)
  have c: "cmdsubst (take 10 ''2024-03-01T09:30:00.000Z'') \<noteq> []"
    by (simp add: cmdsubst_def)
  have d: "map fst (files (snd (convert_session (demo_env\<lparr>today := ''2026-11-03''\<rparr>) False ''/Users/u/git/demo''
           ''/Users/u/.claude/projects/-Users-u-git-demo'' ''/Users/u/.claude/converted-history/demo''
           (''a.jsonl'', Log (lines_of (session ''/Users/u/git/demo'' ''abcdef1234'')))
           (empty_sh\<lparr>dirs := [''/Users/u/.claude/converted-history/demo'']\<rparr>))))
     = [''/Users/u/.claude/converted-history/demo/2024-03-01-abcdef12.md'']"
    by code_simp
  have n: "converted_count ((snd (convert_session (demo_env\<lparr>today := ''2026-11-03''\<rparr>) False ''/Users/u/git/demo''
           ''/Users/u/.claude/projects/-Users-u-git-demo'' ''/Users/u/.claude/converted-history/demo''
           (''a.jsonl'', Log (lines_of (session ''/Users/u/git/demo'' ''abcdef1234'')))
           (empty_sh\<lparr>dirs := [''/Users/u/.claude/converted-history/demo'']\<rparr>)))\<lparr>stdout := [], converted_count := 0\<rparr>)
         = converted_count (empty_sh\<lparr>dirs := [''/Users/u/.claude/converted-history/demo'']\<rparr>)"
    by (simp add: empty_sh_def)
  from reconversion_is_idempotent [OF a b c, where env = demo_env and ?d2.0 = "''2026-11-04''" and ?d1.0 = "''2026-11-03''"
      and pd = "''/Users/u/.claude/projects/-Users-u-git-demo''" and name = "''a.jsonl''"
      and cwd = "''/Users/u/git/demo''" and pcd = "''/Users/u/.claude/converted-history/demo''"
      and st = "empty_sh\<lparr>dirs := [''/Users/u/.claude/converted-history/demo'']\<rparr>"
      and ?st2.0 = "(snd (convert_session (demo_env\<lparr>today := ''2026-11-03''\<rparr>) False ''/Users/u/git/demo''
           ''/Users/u/.claude/projects/-Users-u-git-demo'' ''/Users/u/.claude/converted-history/demo''
           (''a.jsonl'', Log (lines_of (session ''/Users/u/git/demo'' ''abcdef1234'')))
           (empty_sh\<lparr>dirs := [''/Users/u/.claude/converted-history/demo'']\<rparr>)))\<lparr>stdout := [], converted_count := 0\<rparr>"]
    a b c d n
  show ?thesis by simp
qed

text \<open>
  Claim C3, as the code has it. A session whose first record has the session id
  \<open>abcdef1234\<close> and a timestamp that begins with \<open>2024-03-01\<close> gets the document name
  \<open>2024-03-01-abcdef12.md\<close>: the date, a dash, the first eight characters of the
  session id, and \<open>.md\<close>. When the first record has no session id, the first eight
  characters of the log's file name without \<open>.jsonl\<close> stand in for it.
\<close>

theorem document_name_from_date_and_id:
  assumes "first_line ls = [Record e]"
  shows "(j_sessionId e = Some ''abcdef1234'' \<and> j_timestamp e = Some t \<and> take 10 t = ''2024-03-01''
            \<longrightarrow> map_option md_name (read_header env jsonl ls) = Some ''2024-03-01-abcdef12.md'')
       \<and> (j_sessionId e = None \<and> CHR ''/'' \<notin> set stem \<and> CHR 0x0A \<notin> set stem \<and> stem \<noteq> []
            \<longrightarrow> (\<exists>h. read_header env (dir @ ''/'' @ stem @ ''.jsonl'') ls = Some h
                    \<and> md_name h = session_date h @ ''-'' @ take 8 stem @ ''.md''))"
proof (intro conjI impI)
  assume a: "j_sessionId e = Some ''abcdef1234'' \<and> j_timestamp e = Some t \<and> take 10 t = ''2024-03-01''"
  then have ts: "j_timestamp e = Some t" by simp
  have "cmdsubst ''2024-03-01'' = ''2024-03-01''" "cmdsubst ''abcdef1234'' = ''abcdef1234''"
    by (simp_all add: cmdsubst_def)
  with a show "map_option md_name (read_header env jsonl ls) = Some ''2024-03-01-abcdef12.md''"
    by (simp add: read_header_def jq_first_timestamp [OF assms ts] jq_first_sessionId [OF assms]
        jq_first_slug [OF assms] md_name_def)
next
  assume a: "j_sessionId e = None \<and> CHR ''/'' \<notin> set stem \<and> CHR 0x0A \<notin> set stem \<and> stem \<noteq> []"
  obtain h where h: "read_header env (dir @ ''/'' @ stem @ ''.jsonl'') ls = Some h"
    using read_header_Some [OF assms] by blast
  from a have "CHR 0x0A \<notin> set (take 8 stem)" by (meson in_set_takeD)
  then have c: "cmdsubst (take 8 stem) = take 8 stem" by (rule cmdsubst_no_newline)
  have b: "basename_suffix (dir @ ''/'' @ stem @ ''.jsonl'') ''.jsonl'' = stem"
    by (rule basename_suffix_of_log) (use a in auto)
  then have b': "basename_suffix (dir @ CHR ''/'' # stem @ ''.jsonl'') ''.jsonl'' = stem" by simp
  from h a have "short_id h = take 8 stem"
    by (auto simp add: read_header_def jq_first_sessionId [OF assms] jq_first_slug [OF assms] b' c
        split: option.splits)
  with h show "\<exists>h. read_header env (dir @ ''/'' @ stem @ ''.jsonl'') ls = Some h
                    \<and> md_name h = session_date h @ ''-'' @ take 8 stem @ ''.md''"
    by (simp add: md_name_def)
qed

text \<open>
  The theorem at a log named \<open>0123456789abcdef.jsonl\<close> whose first record has no
  session id.
\<close>

theorem document_name_from_date_and_id_witness:
  "first_line [Record (no_fields\<lparr>j_timestamp := Some ''2024-03-01T09:30:00.000Z''\<rparr>)]
     = [Record (no_fields\<lparr>j_timestamp := Some ''2024-03-01T09:30:00.000Z''\<rparr>)]
   \<and> j_sessionId (no_fields\<lparr>j_timestamp := Some ''2024-03-01T09:30:00.000Z''\<rparr>) = None
   \<and> (\<exists>h. read_header demo_env (''/Users/u/.claude/projects/-Users-u-git-demo'' @ ''/'' @ ''0123456789abcdef'' @ ''.jsonl'')
              [Record (no_fields\<lparr>j_timestamp := Some ''2024-03-01T09:30:00.000Z''\<rparr>)] = Some h
          \<and> md_name h = session_date h @ ''-'' @ ''01234567'' @ ''.md'')"
proof -
  have a: "first_line [Record (no_fields\<lparr>j_timestamp := Some ''2024-03-01T09:30:00.000Z''\<rparr>)]
     = [Record (no_fields\<lparr>j_timestamp := Some ''2024-03-01T09:30:00.000Z''\<rparr>)]"
    by (simp add: first_line_def)
  have b: "j_sessionId (no_fields\<lparr>j_timestamp := Some ''2024-03-01T09:30:00.000Z''\<rparr>) = None"
    by (simp add: no_fields_def)
  have c: "CHR ''/'' \<notin> set ''0123456789abcdef'' \<and> CHR 0x0A \<notin> set ''0123456789abcdef''
             \<and> ''0123456789abcdef'' \<noteq> []"
    by simp
  have d: "take 8 ''0123456789abcdef'' = ''01234567''"
    by simp
  from document_name_from_date_and_id [OF a, where env = demo_env and stem = "''0123456789abcdef''"
      and dir = "''/Users/u/.claude/projects/-Users-u-git-demo''"] b c
  have "\<exists>h. read_header demo_env (''/Users/u/.claude/projects/-Users-u-git-demo'' @ ''/'' @ ''0123456789abcdef'' @ ''.jsonl'')
              [Record (no_fields\<lparr>j_timestamp := Some ''2024-03-01T09:30:00.000Z''\<rparr>)] = Some h
          \<and> md_name h = session_date h @ ''-'' @ take 8 ''0123456789abcdef'' @ ''.md''"
    by blast
  with a b show ?thesis unfolding d by blast
qed

text \<open>
  Claim C3 as stated fails on its own example: the converter run on the session
  \<open>abcdef1234\<close> of 2024-03-01 writes one file, named with eight characters of the id,
  not the seven of \<open>2024-03-01-abcdef1.md\<close>.
\<close>

theorem fixture_name_keeps_eight_characters:
  "map fst (files (snd (run_converter demo_env []
      [(''-Users-u-git-demo'', Folder [(''abcdef1234.jsonl'', session ''/Users/u/git/demo'' ''abcdef1234'')])]
      empty_sh)))
   = [''/Users/u/.claude/converted-history/demo/2024-03-01-abcdef12.md'']"
  by code_simp

text \<open>
  Claim C4 fails on the code. A log root holds one group, recorded in a worktree of an
  agent, and the script is run by bash 5.2. The group is counted first, and
  \<open>((project_count++))\<close>, whose value is the 0 the counter held, has a nonzero status:
  \<open>set -e\<close> ends the script there, before the originating path is read. No line about
  the group is printed and the script ends as on an error, where the claim has the group
  skipped as a success. (No document and no directory for the group is made on any
  interpreter, and bash 3.2 prints the line and goes on: the lemmas
  \<open>worktree_group_passed_over\<close> and \<open>worktree_group_skipped_by_bash3\<close>.)
\<close>

theorem worktree_group_ends_the_run:
  "is_worktree (extract_cwd demo_env5 (lines_of (snd (hd worktree_entries))))
   \<and> run_converter demo_env5 [] [worktree_group] empty_sh
       = (Halt, \<lparr>dirs = [''/Users/u/.claude/converted-history''], files = [], stdout = [],
                  project_count = 1, converted_count = 0\<rparr>)"
  by code_simp

text \<open>
  Claim C6 fails on the code. Of three sessions the second holds text that is not JSON,
  and the script is run by bash 3.2. The first session is converted; on the second
  \<open>jq\<close> fails in the assignment of \<open>session_id\<close>, which \<open>set -e\<close> turns into the
  end of the script: one document instead of three, none with a marker, and the third
  session is never reached. (Run by bash 5.2 the script ends before the first session, at
  the counter of groups, with no document at all: the lemma
  \<open>first_counted_group_ends_the_run\<close>.)
\<close>

theorem malformed_first_line_ends_the_run:
  "fst (run_converter demo_env [] [broken_group] empty_sh) = Halt
   \<and> map fst (files (snd (run_converter demo_env [] [broken_group] empty_sh)))
       = [''/Users/u/.claude/converted-history/demo/2024-03-01-aaaaaaaa.md'']"
  by code_simp

text \<open>
  Claim C7 fails on the code. A log root holds one group whose first log names no working
  directory in its first lines, and the script is run by bash 5.2. As for every group
  counted first, \<open>((project_count++))\<close> ends the script under \<open>set -e\<close>, before the
  working directory is looked for: the warning is not printed. (No document and no
  directory for the group is made on any interpreter, so no name is made up for it, and
  bash 3.2 prints the warning and goes on: the lemmas \<open>group_without_cwd_passed_over\<close>
  and \<open>group_without_cwd_skipped_by_bash3\<close>.)
\<close>

theorem group_without_cwd_ends_the_run:
  "extract_cwd demo_env5 (lines_of (snd (hd no_cwd_entries))) = []
   \<and> run_converter demo_env5 [] [no_cwd_group] empty_sh
       = (Halt, \<lparr>dirs = [''/Users/u/.claude/converted-history''], files = [], stdout = [],
                  project_count = 1, converted_count = 0\<rparr>)"
  by code_simp

text \<open>
  Claim C8 fails on the code. A dry run by bash 3.2 over a log root with one project
  prints the documents it would write and writes no file, but it makes the output root and
  the project's output directory: both \<open>mkdir -p\<close> stand before the test of
  \<open>DRY_RUN\<close>. (Run by bash 5.2 the script makes the output root and ends at the counter
  of groups, before it reports any document: the lemma
  \<open>first_counted_group_ends_the_run\<close>.)
\<close>

theorem dry_run_creates_directories:
  "run_converter demo_env [''--dry-run''] [demo_group] empty_sh =
     (Go, \<lparr>dirs = [''/Users/u/.claude/converted-history/demo'', ''/Users/u/.claude/converted-history''],
           files = [],
           stdout = [Processing ''demo'' 2,
                     Would_convert ''a.jsonl'' ''2024-03-01-aaaaaaaa.md'',
                     Would_convert ''c.jsonl'' ''2024-03-01-cccccccc.md'',
                     Converted 2 ''/Users/u/.claude/converted-history/demo'',
                     Summary 1 0 ''/Users/u/.claude/converted-history''],
           project_count = 1, converted_count = 0\<rparr>)"
  by code_simp

end
